theory Spec2Isabelle
  imports
    Main
    "HOL-Library.Char_ord"
    "HOL-Library.List_Lexorder"
    "HOL-Library.AList"
begin

section \<open>Payloads: Python dictionaries of JSON values\<close>

text \<open>
  A program record is a Python \<^verbatim>\<open>Dict[str, Any]\<close> obtained from \<^verbatim>\<open>response.json()\<close> or
  built by the scraper from strings. Its values are JSON values. A dictionary keeps
  insertion order, so it is an association list (keys distinct in a well-formed one).
  Numbers are the integers; characters are the code points 0..255.
\<close>

datatype json =
    JNull
  | JBool bool
  | JInt int
  | JStr string
  | JList "json list"
  | JObj "(string \<times> json) list"

type_synonym pydict = "(string \<times> json) list"

text \<open>\<^verbatim>\<open>d.get(k)\<close> and \<^verbatim>\<open>d.get(k, default)\<close>.\<close>

definition dict_get :: "pydict \<Rightarrow> string \<Rightarrow> json option" where
  "dict_get d k = map_of d k"

definition dict_get_default :: "pydict \<Rightarrow> string \<Rightarrow> json \<Rightarrow> json" where
  "dict_get_default d k dflt = (case map_of d k of None \<Rightarrow> dflt | Some v \<Rightarrow> v)"

text \<open>\<^verbatim>\<open>program.update(details)\<close>: an existing key keeps its place, a new key goes last.\<close>

definition dict_update :: "pydict \<Rightarrow> pydict \<Rightarrow> pydict" where
  "dict_update d e = fold (\<lambda>(k, v) acc. AList.update k v acc) e d"

subsection \<open>Python's \<^verbatim>\<open>bool()\<close>, \<^verbatim>\<open>str()\<close> and \<^verbatim>\<open>repr()\<close>\<close>

fun truthy :: "json \<Rightarrow> bool" where
  "truthy JNull = False"
| "truthy (JBool b) = b"
| "truthy (JInt n) = (n \<noteq> 0)"
| "truthy (JStr s) = (s \<noteq> [])"
| "truthy (JList xs) = (xs \<noteq> [])"
| "truthy (JObj kvs) = (kvs \<noteq> [])"

definition digit_char :: "nat \<Rightarrow> char" where
  "digit_char n = ''0123456789abcdef'' ! n"

fun dec_nat :: "nat \<Rightarrow> string" where
  "dec_nat n = (if n < 10 then [digit_char n] else dec_nat (n div 10) @ [digit_char (n mod 10)])"

declare dec_nat.simps [simp del]

definition dec_int :: "int \<Rightarrow> string" where
  "dec_int i = (if i < 0 then CHR ''-'' # dec_nat (nat (- i)) else dec_nat (nat i))"

definition hex2 :: "nat \<Rightarrow> string" where
  "hex2 n = [digit_char (n div 16), digit_char (n mod 16)]"

fun join :: "string \<Rightarrow> string list \<Rightarrow> string" where
  "join sep [] = []"
| "join sep [x] = x"
| "join sep (x # y # ys) = x @ sep @ join sep (y # ys)"

text \<open>
  \<^verbatim>\<open>repr\<close> of a string: single quotes, unless the string holds a single quote and no
  double quote; the quote and the backslash are escaped, tab, newline and carriage return
  have their short forms, every other non-printable code point is \<^verbatim>\<open>\xNN\<close>.
\<close>

definition printable :: "char \<Rightarrow> bool" where
  "printable c = (let n = (of_char c :: nat) in
     (32 \<le> n \<and> n < 127) \<or> (161 \<le> n \<and> n \<noteq> 173))"

definition repr_char :: "char \<Rightarrow> char \<Rightarrow> string" where
  "repr_char q c =
     (if c = q \<or> c = CHR 0x5C then [CHR 0x5C, c]
      else if c = CHR 0x09 then [CHR 0x5C, CHR ''t'']
      else if c = CHR 0x0A then [CHR 0x5C, CHR ''n'']
      else if c = CHR 0x0D then [CHR 0x5C, CHR ''r'']
      else if printable c then [c]
      else [CHR 0x5C, CHR ''x''] @ hex2 (of_char c))"

definition repr_str :: "string \<Rightarrow> string" where
  "repr_str s =
     (let q = (if CHR 0x27 \<in> set s \<and> CHR 0x22 \<notin> set s then CHR 0x22 else CHR 0x27)
      in [q] @ concat (map (repr_char q) s) @ [q])"

primrec py_repr :: "json \<Rightarrow> string" where
  "py_repr JNull = ''None''"
| "py_repr (JBool b) = (if b then ''True'' else ''False'')"
| "py_repr (JInt n) = dec_int n"
| "py_repr (JStr s) = repr_str s"
| "py_repr (JList xs) = ''['' @ join '', '' (map py_repr xs) @ '']''"
| "py_repr (JObj kvs) =
     ''{'' @ join '', '' (map (\<lambda>kv. repr_str (fst kv) @ '': '' @ snd kv)
                              (map (map_prod id py_repr) kvs)) @ ''}''"

definition py_str :: "json \<Rightarrow> string" where
  "py_str v = (case v of JStr s \<Rightarrow> s | _ \<Rightarrow> py_repr v)"

subsection \<open>\<^verbatim>\<open>json.dumps\<close>\<close>

text \<open>
  \<^verbatim>\<open>json.dumps(data, sort_keys=..., default=str)\<close> with the default separators and
  \<^verbatim>\<open>ensure_ascii\<close>: a character outside the printable ASCII range, the double quote and the
  backslash are escaped. With \<^verbatim>\<open>sort_keys\<close> the items of every dictionary are written in
  the order of their keys (Python compares strings by code point, lexicographically).
\<close>

definition json_escape_char :: "char \<Rightarrow> string" where
  "json_escape_char c =
     (if c = CHR 0x22 then [CHR 0x5C, CHR 0x22]
      else if c = CHR 0x5C then [CHR 0x5C, CHR 0x5C]
      else if c = CHR 0x0A then [CHR 0x5C, CHR ''n'']
      else if c = CHR 0x0D then [CHR 0x5C, CHR ''r'']
      else if c = CHR 0x09 then [CHR 0x5C, CHR ''t'']
      else if c = CHR 0x08 then [CHR 0x5C, CHR ''b'']
      else if c = CHR 0x0C then [CHR 0x5C, CHR ''f'']
      else if 32 \<le> (of_char c :: nat) \<and> (of_char c :: nat) < 127 then [c]
      else [CHR 0x5C, CHR ''u'', CHR ''0'', CHR ''0''] @ hex2 (of_char c))"

definition json_string :: "string \<Rightarrow> string" where
  "json_string s = [CHR 0x22] @ concat (map json_escape_char s) @ [CHR 0x22]"

definition json_item :: "string \<times> string \<Rightarrow> string" where
  "json_item kv = json_string (fst kv) @ '': '' @ snd kv"

primrec json_dumps :: "bool \<Rightarrow> json \<Rightarrow> string" where
  "json_dumps sk JNull = ''null''"
| "json_dumps sk (JBool b) = (if b then ''true'' else ''false'')"
| "json_dumps sk (JInt n) = dec_int n"
| "json_dumps sk (JStr s) = json_string s"
| "json_dumps sk (JList xs) = ''['' @ join '', '' (map (json_dumps sk) xs) @ '']''"
| "json_dumps sk (JObj kvs) =
     ''{'' @ join '', '' (map json_item
        (if sk then sort_key fst (map (map_prod id (json_dumps sk)) kvs)
         else map (map_prod id (json_dumps sk)) kvs)) @ ''}''"

section \<open>The scheduler's scope selection\<close>

definition US_STATES :: "string list" where
  "US_STATES =
    [''AL'', ''AK'', ''AZ'', ''AR'', ''CA'', ''CO'', ''CT'', ''DE'', ''FL'', ''GA'',
     ''HI'', ''ID'', ''IL'', ''IN'', ''IA'', ''KS'', ''KY'', ''LA'', ''ME'', ''MD'',
     ''MA'', ''MI'', ''MN'', ''MS'', ''MO'', ''MT'', ''NE'', ''NV'', ''NH'', ''NJ'',
     ''NM'', ''NY'', ''NC'', ''ND'', ''OH'', ''OK'', ''OR'', ''PA'', ''RI'', ''SC'',
     ''SD'', ''TN'', ''TX'', ''UT'', ''VT'', ''VA'', ''WA'', ''WV'', ''WI'', ''WY'',
     ''DC'', ''PR'', ''VI'', ''GU'', ''AS'', ''MP'']"

text \<open>\<^verbatim>\<open>STATE_GROUPS\<close>, a dictionary literal: its keys in the order written.\<close>

definition STATE_GROUPS :: "(string \<times> string list) list" where
  "STATE_GROUPS =
    [(''northeast'', [''CT'', ''ME'', ''MA'', ''NH'', ''RI'', ''VT'', ''NJ'', ''NY'', ''PA'']),
     (''southeast'', [''DE'', ''FL'', ''GA'', ''MD'', ''NC'', ''SC'', ''VA'', ''DC'', ''WV'']),
     (''midwest'', [''IL'', ''IN'', ''MI'', ''OH'', ''WI'', ''IA'', ''KS'', ''MN'', ''MO'', ''NE'',
                    ''ND'', ''SD'']),
     (''southwest'', [''AZ'', ''NM'', ''OK'', ''TX'']),
     (''west'', [''CO'', ''ID'', ''MT'', ''NV'', ''UT'', ''WY'', ''AK'', ''CA'', ''HI'', ''OR'',
                 ''WA'']),
     (''south'', [''AL'', ''KY'', ''MS'', ''TN'', ''AR'', ''LA''])]"

definition PRIORITY_STATES :: "string list" where
  "PRIORITY_STATES = [''NY'', ''CA'', ''TX'', ''FL'', ''PA'', ''NJ'', ''MA'', ''CT'']"

text \<open>The loop \<^verbatim>\<open>for state in group_states: if state not in states: states.append(state)\<close>.\<close>

fun add_group_states :: "string list \<Rightarrow> string list \<Rightarrow> string list" where
  "add_group_states [] states = states"
| "add_group_states (state # rest) states =
     add_group_states rest (if state \<notin> set states then states @ [state] else states)"

text \<open>
  \<^verbatim>\<open>_get_states_for_today\<close>, given \<^verbatim>\<open>today.weekday()\<close> (0 is Monday) and the truth value
  of the configuration's \<^verbatim>\<open>scan_all_states\<close>. The group name always is a key of
  \<^verbatim>\<open>STATE_GROUPS\<close>, so the lookup cannot raise.
\<close>

definition get_states_for_today :: "nat \<Rightarrow> bool \<Rightarrow> string list" where
  "get_states_for_today day_of_week scan_all_states =
     (let states = PRIORITY_STATES;
          group_names = map fst STATE_GROUPS
      in if day_of_week = 6 \<or> scan_all_states then US_STATES
         else let group_index = day_of_week mod length group_names;
                  group_name = group_names ! group_index;
                  group_states = (case map_of STATE_GROUPS group_name of
                                    Some g \<Rightarrow> g | None \<Rightarrow> [])
              in add_group_states group_states states)"

section \<open>The tracker's database\<close>

text \<open>
  Timestamps are whole seconds. \<^verbatim>\<open>CURRENT_TIMESTAMP\<close>, the default of the columns the
  code does not set, has that resolution.
\<close>

type_synonym timestamp = nat

datatype exn =
    IntegrityError string
  | ProgrammingError string
  | OverflowError string
  | OperationalError string
  | AttributeError string
  | OtherError string

fun exn_str :: "exn \<Rightarrow> string" where
  "exn_str (IntegrityError m) = m"
| "exn_str (ProgrammingError m) = m"
| "exn_str (OverflowError m) = m"
| "exn_str (OperationalError m) = m"
| "exn_str (AttributeError m) = m"
| "exn_str (OtherError m) = m"

record incentive =
  inc_id :: nat
  inc_dsire_id :: string
  inc_name :: string
  inc_state :: "string option"
  inc_program_type :: "string option"
  inc_first_seen_at :: timestamp
  inc_last_seen_at :: timestamp
  inc_last_updated_at :: "timestamp option"
  inc_data_hash :: string
  inc_is_active :: bool
  inc_created_at :: timestamp

text \<open>
  \<^verbatim>\<open>data_json\<close> holds \<^verbatim>\<open>json.dumps(data, default=str)\<close> and is only read back through
  \<^verbatim>\<open>json.loads\<close>, which returns the dictionary that was written (same keys, same order,
  same JSON values); the column is modelled as that dictionary.
\<close>

record snapshot =
  snap_id :: nat
  snap_incentive_id :: nat
  snap_data_json :: pydict
  snap_data_hash :: string
  snap_scraped_at :: timestamp

record change =
  chg_id :: nat
  chg_incentive_id :: nat
  chg_field_name :: string
  chg_old_value :: "string option"
  chg_new_value :: "string option"
  chg_detected_at :: timestamp

record scan_log =
  log_id :: nat
  log_scan_type :: string
  log_states_scanned :: "string list option"
  log_total_found :: nat
  log_new_incentives :: nat
  log_updated_incentives :: nat
  log_removed_incentives :: nat
  log_started_at :: timestamp
  log_completed_at :: "timestamp option"
  log_status :: string
  log_error_message :: "string option"

record database =
  incentives :: "incentive list"
  incentive_snapshots :: "snapshot list"
  incentive_changes :: "change list"
  scan_logs :: "scan_log list"

definition empty_database :: database where
  "empty_database =
     \<lparr>incentives = [], incentive_snapshots = [], incentive_changes = [], scan_logs = []\<rparr>"

subsection \<open>The environment\<close>

text \<open>
  What the code reads from outside is an oracle indexed by a counter of the interactions
  so far (\<open>tick\<close>): Python's clock, the database's clock, whether the storage layer fails at
  a statement, and the two calls of the source client. \<^verbatim>\<open>hashlib.md5(...).hexdigest()\<close> is a
  function from strings to strings.
\<close>

record env =
  md5_hexdigest :: "string \<Rightarrow> string"
  datetime_now :: "nat \<Rightarrow> timestamp"
  current_timestamp :: "nat \<Rightarrow> timestamp"
  storage_fault :: "nat \<Rightarrow> bool"
  get_programs_by_state :: "nat \<Rightarrow> string \<Rightarrow> exn + json list"
  get_program_details :: "nat \<Rightarrow> string \<Rightarrow> exn + pydict option"

record world =
  db :: database
  tick :: nat

type_synonym 'a action = "world \<Rightarrow> (exn + 'a) \<times> world"

definition ret :: "'a \<Rightarrow> 'a action" where
  "ret x w = (Inr x, w)"

definition bnd :: "'a action \<Rightarrow> ('a \<Rightarrow> 'b action) \<Rightarrow> 'b action" where
  "bnd m f w = (case m w of (Inl e, w') \<Rightarrow> (Inl e, w') | (Inr x, w') \<Rightarrow> f x w')"

text \<open>\<^verbatim>\<open>datetime.now()\<close>.\<close>

definition now :: "env \<Rightarrow> timestamp action" where
  "now env w = (Inr (datetime_now env (tick w)), w\<lparr>tick := Suc (tick w)\<rparr>)"

text \<open>
  \<^verbatim>\<open>cursor.execute(...)\<close>: the statement runs on the connection's view of the database, at
  the database clock's reading, unless the storage layer fails.
\<close>

definition execute ::
  "env \<Rightarrow> (timestamp \<Rightarrow> database \<Rightarrow> exn + 'a \<times> database) \<Rightarrow> 'a action" where
  "execute env stmt w =
     (let w' = w\<lparr>tick := Suc (tick w)\<rparr> in
      if storage_fault env (tick w) then (Inl (OperationalError ''disk I/O error''), w')
      else (case stmt (current_timestamp env (tick w)) (db w) of
              Inl e \<Rightarrow> (Inl e, w')
            | Inr (x, d) \<Rightarrow> (Inr x, w'\<lparr>db := d\<rparr>)))"

text \<open>
  \<^verbatim>\<open>_get_connection\<close>: the body runs, then \<^verbatim>\<open>conn.commit()\<close>; on any exception
  \<^verbatim>\<open>conn.rollback()\<close> restores the database and the exception is raised again.
\<close>

definition commit :: "timestamp \<Rightarrow> database \<Rightarrow> exn + unit \<times> database" where
  "commit ts d = Inr ((), d)"

definition get_connection :: "env \<Rightarrow> 'a action \<Rightarrow> 'a action" where
  "get_connection env body w =
     (case bnd body (\<lambda>x. bnd (execute env commit) (\<lambda>_. ret x)) w of
        (Inr x, w') \<Rightarrow> (Inr x, w')
      | (Inl e, w') \<Rightarrow> (Inl e, w'\<lparr>db := db w\<rparr>))"

subsection \<open>Statements\<close>

text \<open>\<^verbatim>\<open>INTEGER PRIMARY KEY AUTOINCREMENT\<close>; no statement of the code deletes a row.\<close>

definition next_id :: "nat list \<Rightarrow> nat" where
  "next_id ids = Suc (fold max ids 0)"

text \<open>
  What \<^verbatim>\<open>sqlite3\<close> stores in a \<^verbatim>\<open>TEXT\<close> column for a Python value bound as parameter
  number \<open>i\<close>: \<^verbatim>\<open>None\<close> is \<^verbatim>\<open>NULL\<close>, a string is itself, an integer that fits 64 bits is its
  decimal text (\<^verbatim>\<open>True\<close> is 1), a list or a dictionary cannot be bound.
\<close>

fun bind_param :: "nat \<Rightarrow> json \<Rightarrow> exn + string option" where
  "bind_param i JNull = Inr None"
| "bind_param i (JBool b) = Inr (Some (if b then ''1'' else ''0''))"
| "bind_param i (JInt n) =
     (if - (2 ^ 63) \<le> n \<and> n < 2 ^ 63 then Inr (Some (dec_int n))
      else Inl (OverflowError ''Python int too large to convert to SQLite INTEGER''))"
| "bind_param i (JStr s) = Inr (Some s)"
| "bind_param i (JList xs) =
     Inl (ProgrammingError (''Error binding parameter '' @ dec_nat i @ '': type '' @ [CHR 0x27] @ ''list''
          @ [CHR 0x27] @ '' is not supported''))"
| "bind_param i (JObj kvs) =
     Inl (ProgrammingError (''Error binding parameter '' @ dec_nat i @ '': type '' @ [CHR 0x27] @ ''dict''
          @ [CHR 0x27] @ '' is not supported''))"

text \<open>\<^verbatim>\<open>SELECT id, data_hash FROM incentives WHERE dsire_id = ?\<close>, \<^verbatim>\<open>fetchone()\<close>.\<close>

definition select_incentive :: "string \<Rightarrow> database \<Rightarrow> incentive option" where
  "select_incentive dsire_id d = find (\<lambda>r. inc_dsire_id r = dsire_id) (incentives d)"

text \<open>
  \<^verbatim>\<open>INSERT INTO incentives (dsire_id, name, state, program_type, first_seen_at,
  last_seen_at, data_hash)\<close>: the parameters are bound in order, then the row is checked
  against \<^verbatim>\<open>name TEXT NOT NULL\<close> and \<^verbatim>\<open>dsire_id TEXT UNIQUE\<close>. Returns \<^verbatim>\<open>lastrowid\<close>.
\<close>

definition insert_incentive ::
  "string \<Rightarrow> json \<Rightarrow> json \<Rightarrow> json \<Rightarrow> timestamp \<Rightarrow> timestamp \<Rightarrow> string
   \<Rightarrow> timestamp \<Rightarrow> database \<Rightarrow> exn + nat \<times> database" where
  "insert_incentive dsire_id name state program_type first_seen last_seen data_hash ts d =
     (case bind_param 2 name of
        Inl e \<Rightarrow> Inl e
      | Inr nm \<Rightarrow>
         (case bind_param 3 state of
            Inl e \<Rightarrow> Inl e
          | Inr st \<Rightarrow>
             (case bind_param 4 program_type of
                Inl e \<Rightarrow> Inl e
              | Inr pt \<Rightarrow>
                 (case nm of
                    None \<Rightarrow> Inl (IntegrityError ''NOT NULL constraint failed: incentives.name'')
                  | Some n \<Rightarrow>
                      if select_incentive dsire_id d \<noteq> None
                      then Inl (IntegrityError ''UNIQUE constraint failed: incentives.dsire_id'')
                      else let rid = next_id (map inc_id (incentives d)) in
                        Inr (rid, d\<lparr>incentives := incentives d @
                          [\<lparr>inc_id = rid, inc_dsire_id = dsire_id, inc_name = n,
                            inc_state = st, inc_program_type = pt,
                            inc_first_seen_at = first_seen, inc_last_seen_at = last_seen,
                            inc_last_updated_at = None, inc_data_hash = data_hash,
                            inc_is_active = True, inc_created_at = ts\<rparr>]\<rparr>)))))"

text \<open>
  \<^verbatim>\<open>INSERT INTO incentive_snapshots (incentive_id, data_json, data_hash)\<close>;
  \<^verbatim>\<open>scraped_at\<close> is the column default \<^verbatim>\<open>CURRENT_TIMESTAMP\<close>.
\<close>

definition insert_snapshot ::
  "nat \<Rightarrow> pydict \<Rightarrow> string \<Rightarrow> timestamp \<Rightarrow> database \<Rightarrow> exn + unit \<times> database" where
  "insert_snapshot incentive_id data data_hash ts d =
     Inr ((), d\<lparr>incentive_snapshots := incentive_snapshots d @
       [\<lparr>snap_id = next_id (map snap_id (incentive_snapshots d)),
         snap_incentive_id = incentive_id, snap_data_json = data,
         snap_data_hash = data_hash, snap_scraped_at = ts\<rparr>]\<rparr>)"

text \<open>\<^verbatim>\<open>UPDATE incentives SET last_seen_at = ?, is_active = 1 WHERE id = ?\<close>.\<close>

definition update_last_seen ::
  "timestamp \<Rightarrow> nat \<Rightarrow> timestamp \<Rightarrow> database \<Rightarrow> exn + unit \<times> database" where
  "update_last_seen seen incentive_id ts d =
     Inr ((), d\<lparr>incentives := map (\<lambda>r. if inc_id r = incentive_id
                    then r\<lparr>inc_last_seen_at := seen, inc_is_active := True\<rparr> else r)
                  (incentives d)\<rparr>)"

text \<open>
  \<^verbatim>\<open>SELECT data_json FROM incentive_snapshots WHERE incentive_id = ?
  ORDER BY scraped_at DESC LIMIT 1\<close>. Among rows of equal \<^verbatim>\<open>scraped_at\<close> SQLite returns the
  one it reads first, the row of least id.
\<close>

fun latest_row :: "snapshot list \<Rightarrow> snapshot option" where
  "latest_row [] = None"
| "latest_row (r # rs) =
     (case latest_row rs of
        None \<Rightarrow> Some r
      | Some m \<Rightarrow> if snap_scraped_at r < snap_scraped_at m then Some m else Some r)"

definition select_latest_snapshot :: "nat \<Rightarrow> database \<Rightarrow> snapshot option" where
  "select_latest_snapshot incentive_id d =
     latest_row (filter (\<lambda>r. snap_incentive_id r = incentive_id) (incentive_snapshots d))"

text \<open>
  \<^verbatim>\<open>INSERT INTO incentive_changes (incentive_id, field_name, old_value, new_value)\<close>;
  \<^verbatim>\<open>detected_at\<close> is the column default \<^verbatim>\<open>CURRENT_TIMESTAMP\<close>.
\<close>

definition insert_change ::
  "nat \<Rightarrow> string \<Rightarrow> string option \<Rightarrow> string option
   \<Rightarrow> timestamp \<Rightarrow> database \<Rightarrow> exn + unit \<times> database" where
  "insert_change incentive_id field old_value new_value ts d =
     Inr ((), d\<lparr>incentive_changes := incentive_changes d @
       [\<lparr>chg_id = next_id (map chg_id (incentive_changes d)),
         chg_incentive_id = incentive_id, chg_field_name = field,
         chg_old_value = old_value, chg_new_value = new_value, chg_detected_at = ts\<rparr>]\<rparr>)"

text \<open>\<^verbatim>\<open>UPDATE incentives SET data_hash = ?, last_updated_at = ? WHERE id = ?\<close>.\<close>

definition update_hash ::
  "string \<Rightarrow> timestamp \<Rightarrow> nat \<Rightarrow> timestamp \<Rightarrow> database \<Rightarrow> exn + unit \<times> database" where
  "update_hash data_hash updated incentive_id ts d =
     Inr ((), d\<lparr>incentives := map (\<lambda>r. if inc_id r = incentive_id
                    then r\<lparr>inc_data_hash := data_hash, inc_last_updated_at := Some updated\<rparr>
                    else r)
                  (incentives d)\<rparr>)"

text \<open>\<^verbatim>\<open>UPDATE incentives SET is_active = 0 WHERE dsire_id IN (...)\<close>.\<close>

definition update_inactive ::
  "string list \<Rightarrow> timestamp \<Rightarrow> database \<Rightarrow> exn + unit \<times> database" where
  "update_inactive dsire_ids ts d =
     Inr ((), d\<lparr>incentives := map (\<lambda>r. if inc_dsire_id r \<in> set dsire_ids
                    then r\<lparr>inc_is_active := False\<rparr> else r)
                  (incentives d)\<rparr>)"

text \<open>
  \<^verbatim>\<open>INSERT INTO scan_logs (scan_type, states_scanned, started_at)\<close>; the status is the
  column default \<^verbatim>\<open>'running'\<close>. Returns \<^verbatim>\<open>lastrowid\<close>.
\<close>

definition insert_scan_log ::
  "string \<Rightarrow> string list option \<Rightarrow> timestamp
   \<Rightarrow> timestamp \<Rightarrow> database \<Rightarrow> exn + nat \<times> database" where
  "insert_scan_log scan_type states started ts d =
     (let rid = next_id (map log_id (scan_logs d)) in
      Inr (rid, d\<lparr>scan_logs := scan_logs d @
        [\<lparr>log_id = rid, log_scan_type = scan_type, log_states_scanned = states,
          log_total_found = 0, log_new_incentives = 0, log_updated_incentives = 0,
          log_removed_incentives = 0, log_started_at = started, log_completed_at = None,
          log_status = ''running'', log_error_message = None\<rparr>]\<rparr>))"

text \<open>\<^verbatim>\<open>UPDATE scan_logs SET status = ?, completed_at = ?, ... WHERE id = ?\<close>.\<close>

definition update_scan_log ::
  "nat \<Rightarrow> string \<Rightarrow> timestamp \<Rightarrow> nat \<Rightarrow> nat \<Rightarrow> nat \<Rightarrow> nat \<Rightarrow> string option
   \<Rightarrow> timestamp \<Rightarrow> database \<Rightarrow> exn + unit \<times> database" where
  "update_scan_log scan_id status completed total_found new_count updated_count removed_count
     error_message ts d =
     Inr ((), d\<lparr>scan_logs := map (\<lambda>r. if log_id r = scan_id
                    then r\<lparr>log_status := status, log_completed_at := Some completed,
                           log_total_found := total_found, log_new_incentives := new_count,
                           log_updated_incentives := updated_count,
                           log_removed_incentives := removed_count,
                           log_error_message := error_message\<rparr>
                    else r)
                  (scan_logs d)\<rparr>)"

section \<open>The tracker\<close>

text \<open>\<^verbatim>\<open>_compute_hash\<close>: the MD5 digest of the dictionary written with sorted keys.\<close>

definition compute_hash :: "env \<Rightarrow> pydict \<Rightarrow> string" where
  "compute_hash env data = md5_hexdigest env (json_dumps True (JObj data))"

definition start_scan :: "env \<Rightarrow> string \<Rightarrow> string list \<Rightarrow> nat action" where
  "start_scan env scan_type states =
     get_connection env
       (bnd (now env) (\<lambda>started.
          execute env (insert_scan_log scan_type
                         (if states = [] then None else Some states) started)))"

definition end_scan ::
  "env \<Rightarrow> nat \<Rightarrow> string \<Rightarrow> nat \<Rightarrow> nat \<Rightarrow> nat \<Rightarrow> nat \<Rightarrow> string option \<Rightarrow> unit action" where
  "end_scan env scan_id status total_found new_count updated_count removed_count error_message =
     get_connection env
       (bnd (now env) (\<lambda>completed.
          execute env (update_scan_log scan_id status completed total_found new_count
                         updated_count removed_count error_message)))"

definition tracked_fields :: "string list" where
  "tracked_fields =
     [''name'', ''program_type'', ''incentive_amount'', ''start_date'',
      ''end_date'', ''description'', ''eligible_sectors'', ''technologies'',
      ''implementing_sector'', ''contact'', ''website'']"

text \<open>\<^verbatim>\<open>str(d.get(field, '')) if d.get(field) else None\<close>.\<close>

definition field_value :: "pydict \<Rightarrow> string \<Rightarrow> string option" where
  "field_value d field =
     (case dict_get d field of
        None \<Rightarrow> None
      | Some v \<Rightarrow> if truthy v then Some (py_str (dict_get_default d field (JStr ''''))) else None)"

text \<open>The loop of \<^verbatim>\<open>_record_changes\<close> over the fields that are left.\<close>

fun record_changes_loop ::
  "env \<Rightarrow> nat \<Rightarrow> pydict \<Rightarrow> pydict \<Rightarrow> string list \<Rightarrow> unit action" where
  "record_changes_loop env incentive_id old_data new_data [] = ret ()"
| "record_changes_loop env incentive_id old_data new_data (field # rest) =
     (let old_value = field_value old_data field;
          new_value = field_value new_data field
      in if old_value \<noteq> new_value
         then bnd (execute env (insert_change incentive_id field old_value new_value))
                (\<lambda>_. record_changes_loop env incentive_id old_data new_data rest)
         else record_changes_loop env incentive_id old_data new_data rest)"

definition record_changes :: "env \<Rightarrow> nat \<Rightarrow> pydict \<Rightarrow> pydict \<Rightarrow> unit action" where
  "record_changes env incentive_id old_data new_data =
     record_changes_loop env incentive_id old_data new_data tracked_fields"

text \<open>The body of \<^verbatim>\<open>record_incentive\<close> inside \<^verbatim>\<open>with self._get_connection()\<close>.\<close>

definition record_incentive_body ::
  "env \<Rightarrow> string \<Rightarrow> pydict \<Rightarrow> string \<Rightarrow> timestamp \<Rightarrow> (bool \<times> bool) action" where
  "record_incentive_body env dsire_id data data_hash seen =
     bnd (execute env (\<lambda>ts d. Inr (select_incentive dsire_id d, d))) (\<lambda>existing.
       case existing of
         None \<Rightarrow>
           bnd (execute env (insert_incentive dsire_id
                  (dict_get_default data ''name'' (JStr ''Unknown''))
                  (dict_get_default data ''state'' (JStr ''''))
                  (dict_get_default data ''program_type'' (JStr ''''))
                  seen seen data_hash)) (\<lambda>incentive_id.
           bnd (execute env (insert_snapshot incentive_id data data_hash)) (\<lambda>_.
           ret (True, False)))
       | Some row \<Rightarrow>
           bnd (execute env (update_last_seen seen (inc_id row))) (\<lambda>_.
           if inc_data_hash row \<noteq> data_hash then
             bnd (execute env (\<lambda>ts d. Inr (select_latest_snapshot (inc_id row) d, d)))
               (\<lambda>old_snapshot.
             bnd (case old_snapshot of
                    Some snap \<Rightarrow> record_changes env (inc_id row) (snap_data_json snap) data
                  | None \<Rightarrow> ret ()) (\<lambda>_.
             bnd (execute env (insert_snapshot (inc_id row) data data_hash)) (\<lambda>_.
             bnd (execute env (update_hash data_hash seen (inc_id row))) (\<lambda>_.
             ret (False, True)))))
           else ret (False, False)))"

definition record_incentive :: "env \<Rightarrow> string \<Rightarrow> pydict \<Rightarrow> (bool \<times> bool) action" where
  "record_incentive env dsire_id data =
     (let data_hash = compute_hash env data in
      bnd (now env) (\<lambda>seen.
        get_connection env (record_incentive_body env dsire_id data data_hash seen)))"

definition mark_inactive :: "env \<Rightarrow> string list \<Rightarrow> unit action" where
  "mark_inactive env dsire_ids =
     (if dsire_ids = [] then ret ()
      else get_connection env (execute env (update_inactive dsire_ids)))"

section \<open>Scans\<close>

text \<open>The scheduler's configuration, as far as a scan reads it (truth values).\<close>

record config =
  include_details :: bool
  scan_all_states :: bool

record new_entry =
  ne_dsire_id :: string
  ne_name :: json
  ne_state :: string
  ne_program_type :: json
  ne_discovered_at :: timestamp

record updated_entry =
  ue_dsire_id :: string
  ue_name :: json
  ue_state :: string

text \<open>
  The \<^verbatim>\<open>results\<close> dictionary of a scan. \<^verbatim>\<open>run_scan\<close> lists summaries of the new and
  updated programs, \<^verbatim>\<open>scan_states\<close> the programs themselves. A key that a path never
  sets is \<open>None\<close>.
\<close>

record ('n, 'u) scan_results =
  res_scan_id :: nat
  res_scan_type :: "string option"
  res_states :: "string list"
  res_started_at :: timestamp
  res_new_incentives :: "'n list"
  res_updated_incentives :: "'u list"
  res_total_found :: nat
  res_errors :: "string list"
  res_completed_at :: "timestamp option"
  res_status :: "string option"
  res_error :: "string option"

text \<open>\<^verbatim>\<open>today.weekday()\<close>: 0 is Monday; second 0 is a Thursday.\<close>

definition weekday :: "timestamp \<Rightarrow> nat" where
  "weekday ts = (ts div 86400 + 3) mod 7"

definition type_name :: "json \<Rightarrow> string" where
  "type_name v = (case v of JNull \<Rightarrow> ''NoneType'' | JBool _ \<Rightarrow> ''bool'' | JInt _ \<Rightarrow> ''int''
                  | JStr _ \<Rightarrow> ''str'' | JList _ \<Rightarrow> ''list'' | JObj _ \<Rightarrow> ''dict'')"

text \<open>\<^verbatim>\<open>program.get\<close> on a program that is no dictionary.\<close>

definition no_get :: "json \<Rightarrow> exn" where
  "no_get v = AttributeError ([CHR 0x27] @ type_name v @ [CHR 0x27]
                @ '' object has no attribute '' @ [CHR 0x27] @ ''get'' @ [CHR 0x27])"

text \<open>The two calls of the source client.\<close>

definition fetch_programs :: "env \<Rightarrow> string \<Rightarrow> json list action" where
  "fetch_programs env state w =
     (get_programs_by_state env (tick w) state, w\<lparr>tick := Suc (tick w)\<rparr>)"

text \<open>
  \<^verbatim>\<open>details = self.client.get_program_details(dsire_id)\<close>, then
  \<^verbatim>\<open>if details: program.update(details)\<close>; gives the program as it is afterwards.
\<close>

definition merged :: "pydict \<Rightarrow> pydict option \<Rightarrow> pydict" where
  "merged program details =
     (case details of
        None \<Rightarrow> program
      | Some dd \<Rightarrow> if dd \<noteq> [] then dict_update program dd else program)"

definition fetch_details :: "env \<Rightarrow> string \<Rightarrow> pydict \<Rightarrow> pydict action" where
  "fetch_details env dsire_id program w =
     (case get_program_details env (tick w) dsire_id of
        Inl e \<Rightarrow> (Inl e, w\<lparr>tick := Suc (tick w)\<rparr>)
      | Inr details \<Rightarrow> (Inr (merged program details), w\<lparr>tick := Suc (tick w)\<rparr>))"

text \<open>\<^verbatim>\<open>str(program.get('id', ''))\<close>.\<close>

definition program_id :: "pydict \<Rightarrow> string" where
  "program_id program = py_str (dict_get_default program ''id'' (JStr ''''))"

subsection \<open>\<^verbatim>\<open>DailyScheduler.run_scan\<close>\<close>

text \<open>
  One program of the inner loop, from \<^verbatim>\<open>all_found_ids.add(dsire_id)\<close> to
  \<^verbatim>\<open>results['total_found'] += 1\<close>; the set \<^verbatim>\<open>all_found_ids\<close> is never read. An exception
  leaves \<^verbatim>\<open>results\<close> as it was before the program.
\<close>

definition run_scan_record ::
  "env \<Rightarrow> config \<Rightarrow> string \<Rightarrow> pydict \<Rightarrow> string
   \<Rightarrow> (new_entry, updated_entry) scan_results
   \<Rightarrow> (new_entry, updated_entry) scan_results action" where
  "run_scan_record env cfg state program dsire_id res =
     bnd (if include_details cfg then fetch_details env dsire_id program else ret program)
       (\<lambda>program.
     bnd (record_incentive env dsire_id program) (\<lambda>(is_new, is_updated).
     bnd (if is_new
          then bnd (now env) (\<lambda>discovered.
                 ret (res\<lparr>res_new_incentives := res_new_incentives res @
                   [\<lparr>ne_dsire_id = dsire_id,
                     ne_name = dict_get_default program ''name'' (JStr ''Unknown''),
                     ne_state = state,
                     ne_program_type = dict_get_default program ''program_type'' (JStr ''''),
                     ne_discovered_at = discovered\<rparr>]\<rparr>))
          else ret res) (\<lambda>res1.
     let res2 = (if is_updated
                 then res1\<lparr>res_updated_incentives := res_updated_incentives res1 @
                   [\<lparr>ue_dsire_id = dsire_id,
                     ue_name = dict_get_default program ''name'' (JStr ''Unknown''),
                     ue_state = state\<rparr>]\<rparr>
                 else res1)
     in ret (res2\<lparr>res_total_found := Suc (res_total_found res2)\<rparr>))))"

text \<open>
  \<^verbatim>\<open>for program in programs\<close>. The result says whether an exception left the loop, and
  holds \<^verbatim>\<open>results\<close> as they are then.
\<close>

fun run_scan_programs ::
  "env \<Rightarrow> config \<Rightarrow> string \<Rightarrow> json list \<Rightarrow> (new_entry, updated_entry) scan_results
   \<Rightarrow> world \<Rightarrow> (exn option \<times> (new_entry, updated_entry) scan_results) \<times> world" where
  "run_scan_programs env cfg state [] res w = ((None, res), w)"
| "run_scan_programs env cfg state (program # rest) res w =
     (case program of
        JObj d \<Rightarrow>
          (let dsire_id = program_id d in
           if dsire_id = [] then run_scan_programs env cfg state rest res w
           else (case run_scan_record env cfg state d dsire_id res w of
                   (Inl e, w') \<Rightarrow> ((Some e, res), w')
                 | (Inr res', w') \<Rightarrow> run_scan_programs env cfg state rest res' w'))
      | _ \<Rightarrow> ((Some (no_get program), res), w))"

text \<open>One state: the \<^verbatim>\<open>try\<close> with its \<^verbatim>\<open>except Exception\<close>.\<close>

definition run_scan_state ::
  "env \<Rightarrow> config \<Rightarrow> string \<Rightarrow> (new_entry, updated_entry) scan_results
   \<Rightarrow> world \<Rightarrow> (new_entry, updated_entry) scan_results \<times> world" where
  "run_scan_state env cfg state res w =
     (case fetch_programs env state w of
        (Inl e, w1) \<Rightarrow>
          (res\<lparr>res_errors := res_errors res @
                  [''Error scanning '' @ state @ '': '' @ exn_str e]\<rparr>, w1)
      | (Inr programs, w1) \<Rightarrow>
          (case run_scan_programs env cfg state programs res w1 of
             ((None, res'), w2) \<Rightarrow> (res', w2)
           | ((Some e, res'), w2) \<Rightarrow>
               (res'\<lparr>res_errors := res_errors res' @
                       [''Error scanning '' @ state @ '': '' @ exn_str e]\<rparr>, w2)))"

fun run_scan_states ::
  "env \<Rightarrow> config \<Rightarrow> string list \<Rightarrow> (new_entry, updated_entry) scan_results
   \<Rightarrow> world \<Rightarrow> (new_entry, updated_entry) scan_results \<times> world" where
  "run_scan_states env cfg [] res w = (res, w)"
| "run_scan_states env cfg (state # rest) res w =
     (case run_scan_state env cfg state res w of
        (res', w') \<Rightarrow> run_scan_states env cfg rest res' w')"

text \<open>\<^verbatim>\<open>states = states or self._get_states_for_today()\<close>.\<close>

definition states_or_today :: "env \<Rightarrow> config \<Rightarrow> string list option \<Rightarrow> string list action" where
  "states_or_today env cfg states =
     (case states of
        Some (s # ss) \<Rightarrow> ret (s # ss)
      | _ \<Rightarrow> bnd (now env) (\<lambda>today.
               ret (get_states_for_today (weekday today) (scan_all_states cfg))))"

text \<open>
  \<^verbatim>\<open>run_scan\<close>. The callbacks and the webhook run after the scan log is closed, and every
  exception of theirs is caught and logged; they change neither the database nor the
  results. An exception of \<^verbatim>\<open>start_scan\<close>, or of \<^verbatim>\<open>end_scan\<close> inside the handler, leaves
  \<^verbatim>\<open>run_scan\<close>.
\<close>

definition run_scan ::
  "env \<Rightarrow> config \<Rightarrow> string list option \<Rightarrow> string
   \<Rightarrow> (new_entry, updated_entry) scan_results action" where
  "run_scan env cfg states_arg scan_type =
     bnd (states_or_today env cfg states_arg) (\<lambda>states.
     bnd (start_scan env scan_type states) (\<lambda>scan_id.
     bnd (now env) (\<lambda>started.
     (\<lambda>w.
       let res0 = \<lparr>res_scan_id = scan_id, res_scan_type = Some scan_type, res_states = states,
                    res_started_at = started, res_new_incentives = [],
                    res_updated_incentives = [], res_total_found = 0, res_errors = [],
                    res_completed_at = None, res_status = None, res_error = None\<rparr>
       in (case run_scan_states env cfg states res0 w of
             (res, w1) \<Rightarrow>
               (case end_scan env scan_id ''completed'' (res_total_found res)
                       (length (res_new_incentives res))
                       (length (res_updated_incentives res)) 0 None w1 of
                  (Inr _, w2) \<Rightarrow>
                    bnd (now env) (\<lambda>completed.
                      ret (res\<lparr>res_completed_at := Some completed,
                                res_status := Some ''completed''\<rparr>)) w2
                | (Inl e, w2) \<Rightarrow>
                    bnd (end_scan env scan_id ''failed'' 0 0 0 0 (Some (exn_str e))) (\<lambda>_.
                      ret (res\<lparr>res_status := Some ''failed'',
                                res_error := Some (exn_str e)\<rparr>)) w2))))))"

subsection \<open>\<^verbatim>\<open>ScanRunner.scan_states\<close>\<close>

definition scan_states_record ::
  "env \<Rightarrow> bool \<Rightarrow> pydict \<Rightarrow> string \<Rightarrow> (pydict, pydict) scan_results
   \<Rightarrow> (pydict, pydict) scan_results action" where
  "scan_states_record env incl program dsire_id res =
     bnd (if incl then fetch_details env dsire_id program else ret program) (\<lambda>program.
     bnd (record_incentive env dsire_id program) (\<lambda>(is_new, is_updated).
     let res1 = (if is_new
                 then res\<lparr>res_new_incentives := res_new_incentives res @ [program]\<rparr>
                 else res);
         res2 = (if is_updated
                 then res1\<lparr>res_updated_incentives := res_updated_incentives res1 @ [program]\<rparr>
                 else res1)
     in ret (res2\<lparr>res_total_found := Suc (res_total_found res2)\<rparr>)))"

fun scan_states_programs ::
  "env \<Rightarrow> bool \<Rightarrow> json list \<Rightarrow> (pydict, pydict) scan_results
   \<Rightarrow> world \<Rightarrow> (exn option \<times> (pydict, pydict) scan_results) \<times> world" where
  "scan_states_programs env incl [] res w = ((None, res), w)"
| "scan_states_programs env incl (program # rest) res w =
     (case program of
        JObj d \<Rightarrow>
          (let dsire_id = program_id d in
           if dsire_id = [] then scan_states_programs env incl rest res w
           else (case scan_states_record env incl d dsire_id res w of
                   (Inl e, w') \<Rightarrow> ((Some e, res), w')
                 | (Inr res', w') \<Rightarrow> scan_states_programs env incl rest res' w'))
      | _ \<Rightarrow> ((Some (no_get program), res), w))"

definition scan_states_state ::
  "env \<Rightarrow> bool \<Rightarrow> string \<Rightarrow> (pydict, pydict) scan_results
   \<Rightarrow> world \<Rightarrow> (pydict, pydict) scan_results \<times> world" where
  "scan_states_state env incl state res w =
     (case fetch_programs env state w of
        (Inl e, w1) \<Rightarrow> (res\<lparr>res_errors := res_errors res @ [state @ '': '' @ exn_str e]\<rparr>, w1)
      | (Inr programs, w1) \<Rightarrow>
          (case scan_states_programs env incl programs res w1 of
             ((None, res'), w2) \<Rightarrow> (res', w2)
           | ((Some e, res'), w2) \<Rightarrow>
               (res'\<lparr>res_errors := res_errors res' @ [state @ '': '' @ exn_str e]\<rparr>, w2)))"

text \<open>
  \<^verbatim>\<open>for idx, state in enumerate(states, 1)\<close>. The progress callback is the caller's; it
  runs outside the \<^verbatim>\<open>try\<close>, so an exception of its leaves \<^verbatim>\<open>scan_states\<close>.
\<close>

type_synonym progress_callback = "string \<Rightarrow> nat \<Rightarrow> nat \<Rightarrow> exn option"

fun scan_states_loop ::
  "env \<Rightarrow> bool \<Rightarrow> progress_callback option \<Rightarrow> nat \<Rightarrow> nat \<Rightarrow> string list
   \<Rightarrow> (pydict, pydict) scan_results \<Rightarrow> (pydict, pydict) scan_results action" where
  "scan_states_loop env incl cb n idx [] res w = (Inr res, w)"
| "scan_states_loop env incl cb n idx (state # rest) res w =
     (case (case cb of None \<Rightarrow> None | Some f \<Rightarrow> f (''Scanning '' @ state) idx n) of
        Some e \<Rightarrow> (Inl e, w)
      | None \<Rightarrow>
          (case scan_states_state env incl state res w of
             (res', w') \<Rightarrow> scan_states_loop env incl cb n (Suc idx) rest res' w'))"

definition scan_states ::
  "env \<Rightarrow> string list \<Rightarrow> bool \<Rightarrow> progress_callback option
   \<Rightarrow> (pydict, pydict) scan_results action" where
  "scan_states env states incl cb =
     bnd (start_scan env ''manual'' states) (\<lambda>scan_id.
     bnd (now env) (\<lambda>started.
     bnd (scan_states_loop env incl cb (length states) 1 states
            \<lparr>res_scan_id = scan_id, res_scan_type = None, res_states = states,
              res_started_at = started, res_new_incentives = [],
              res_updated_incentives = [], res_total_found = 0, res_errors = [],
              res_completed_at = None, res_status = None, res_error = None\<rparr>) (\<lambda>res.
     bnd (end_scan env scan_id ''completed'' (res_total_found res)
            (length (res_new_incentives res)) (length (res_updated_incentives res)) 0 None)
       (\<lambda>_.
     bnd (now env) (\<lambda>completed.
     ret (res\<lparr>res_completed_at := Some completed\<rparr>))))))"

section \<open>Example environments\<close>

text \<open>
  An environment for running the code on concrete inputs: the digest is the identity (so
  two payloads have the same digest only if their sorted serialisations are the same),
  Python's clock shows the interaction counter, the program details are never found.
  The database clock, the storage faults and the lists of programs are given.
\<close>

definition example_env ::
  "(nat \<Rightarrow> timestamp) \<Rightarrow> (nat \<Rightarrow> bool) \<Rightarrow> (string \<Rightarrow> exn + json list) \<Rightarrow> env" where
  "example_env clock faults programs =
     \<lparr>md5_hexdigest = (\<lambda>s. s), datetime_now = (\<lambda>n. n), current_timestamp = clock,
      storage_fault = faults, get_programs_by_state = (\<lambda>n. programs),
      get_program_details = (\<lambda>n dsire_id. Inr None)\<rparr>"

definition fresh_world :: world where
  "fresh_world = \<lparr>db = empty_database, tick = 0\<rparr>"

text \<open>A sequence of observations, each recorded in the world the one before left.\<close>

definition observe :: "env \<Rightarrow> (string \<times> pydict) list \<Rightarrow> world \<Rightarrow> world" where
  "observe env observations w =
     fold (\<lambda>(dsire_id, data) w. snd (record_incentive env dsire_id data w)) observations w"

text \<open>
  The database clock and Python's clock both show the interaction counter, nothing
  fails, no state has programs.
\<close>

definition quiet_env :: env where
  "quiet_env = example_env (\<lambda>n. n) (\<lambda>n. False) (\<lambda>s. Inr [])"

text \<open>A configuration without details, and the results dictionary a scan starts with.\<close>

definition plain_config :: config where
  "plain_config = \<lparr>include_details = False, scan_all_states = False\<rparr>"

definition initial_results :: "nat \<Rightarrow> string list \<Rightarrow> ('n, 'u) scan_results" where
  "initial_results scan_id states =
     \<lparr>res_scan_id = scan_id, res_scan_type = None, res_states = states, res_started_at = 0,
      res_new_incentives = [], res_updated_incentives = [], res_total_found = 0,
      res_errors = [], res_completed_at = None, res_status = None, res_error = None\<rparr>"

text \<open>The same, with a database clock that stays within one second.\<close>

definition one_second_env :: env where
  "one_second_env = example_env (\<lambda>n. 100) (\<lambda>n. False) (\<lambda>s. Inr [])"

text \<open>A client for which state B raises and the states A and C have one program each.\<close>

definition three_states :: "string \<Rightarrow> exn + json list" where
  "three_states s =
     (if s = ''B'' then Inl (OtherError ''boom'')
      else if s = ''A'' then Inr [JObj [(''id'', JInt 1), (''name'', JStr ''a'')]]
      else Inr [JObj [(''id'', JInt 2), (''name'', JStr ''c'')]])"

definition three_states_env :: env where
  "three_states_env = example_env (\<lambda>n. n) (\<lambda>n. False) three_states"

section \<open>Notions the properties are stated with\<close>

text \<open>A program whose \<^verbatim>\<open>id\<close> is absent or the empty string, and a fetched record that is one.\<close>

definition lacks_id :: "pydict \<Rightarrow> bool" where
  "lacks_id program = (dict_get program ''id'' = None \<or> dict_get program ''id'' = Some (JStr ''''))"

definition skipped :: "json \<Rightarrow> bool" where
  "skipped p = (case p of JObj d \<Rightarrow> lacks_id d | _ \<Rightarrow> False)"

text \<open>
  A payload that \<^verbatim>\<open>INSERT INTO incentives\<close> accepts: its \<^verbatim>\<open>name\<close>, \<^verbatim>\<open>state\<close> and
  \<^verbatim>\<open>program_type\<close> can be bound, and the name is not \<^verbatim>\<open>NULL\<close>.
\<close>

definition insertable :: "pydict \<Rightarrow> bool" where
  "insertable data =
     (case bind_param 2 (dict_get_default data ''name'' (JStr ''Unknown'')) of
        Inl e \<Rightarrow> False
      | Inr None \<Rightarrow> False
      | Inr (Some n) \<Rightarrow>
          (case bind_param 3 (dict_get_default data ''state'' (JStr '''')) of
             Inl e \<Rightarrow> False
           | Inr st \<Rightarrow>
               (case bind_param 4 (dict_get_default data ''program_type'' (JStr '''')) of
                  Inl e \<Rightarrow> False
                | Inr pt \<Rightarrow> True)))"

text \<open>
  A fetched record that a scan can record whatever the database holds: a dictionary
  that has no id, or one that is insertable as it is recorded (when details are
  configured: the detail call returns, and the program with its details is insertable).
\<close>

definition recordable :: "env \<Rightarrow> bool \<Rightarrow> json \<Rightarrow> bool" where
  "recordable env incl p =
     (case p of
        JObj d \<Rightarrow>
          lacks_id d \<or>
          (if incl
           then (\<forall>n. case get_program_details env n (program_id d) of
                       Inr details \<Rightarrow> insertable (merged d details)
                     | Inl e \<Rightarrow> False)
           else insertable d)
      | _ \<Rightarrow> False)"

text \<open>The id under which a scan records a fetched record.\<close>

definition record_id :: "json \<Rightarrow> string" where
  "record_id p = (case p of JObj d \<Rightarrow> program_id d | _ \<Rightarrow> [])"

text \<open>The external ids the tracker has a row for.\<close>

definition known_ids :: "database \<Rightarrow> string set" where
  "known_ids d = inc_dsire_id ` set (incentives d)"

text \<open>
  A value as Python holds it: the keys of a dictionary are distinct, at every level.
\<close>

primrec distinct_keys :: "json \<Rightarrow> bool" where
  "distinct_keys JNull = True"
| "distinct_keys (JBool b) = True"
| "distinct_keys (JInt n) = True"
| "distinct_keys (JStr s) = True"
| "distinct_keys (JList xs) = list_all (\<lambda>ok. ok) (map distinct_keys xs)"
| "distinct_keys (JObj kvs) =
     (distinct (map fst kvs) \<and> list_all snd (map (map_prod id distinct_keys) kvs))"

text \<open>
  Two values that are equal as Python compares lists and dictionaries: lists item by item,
  dictionaries as maps (as many items, and every key of the first is a key of the second,
  with an equal value), whatever the order of their items.
\<close>

primrec equal_as_maps :: "json \<Rightarrow> json \<Rightarrow> bool" where
  "equal_as_maps JNull v = (v = JNull)"
| "equal_as_maps (JBool b) v = (v = JBool b)"
| "equal_as_maps (JInt n) v = (v = JInt n)"
| "equal_as_maps (JStr s) v = (v = JStr s)"
| "equal_as_maps (JList xs) v =
     (case v of
        JList ys \<Rightarrow> list_all2 (\<lambda>same y. same y) (map equal_as_maps xs) ys
      | _ \<Rightarrow> False)"
| "equal_as_maps (JObj kvs) v =
     (case v of
        JObj kvs' \<Rightarrow>
          length kvs = length kvs' \<and>
          list_all (\<lambda>(k, same). case map_of kvs' k of Some b \<Rightarrow> same b | None \<Rightarrow> False)
            (map (map_prod id equal_as_maps) kvs)
      | _ \<Rightarrow> False)"

section \<open>The tracker: what a call does\<close>

lemma bnd_Inr_iff:
  "bnd m f w = (Inr y, w') \<longleftrightarrow> (\<exists>x w1. m w = (Inr x, w1) \<and> f x w1 = (Inr y, w'))"
  by (auto simp: bnd_def split: prod.splits sum.splits)

lemma bnd_Inl_iff:
  "bnd m f w = (Inl e, w') \<longleftrightarrow>
     (m w = (Inl e, w') \<or> (\<exists>x w1. m w = (Inr x, w1) \<and> f x w1 = (Inl e, w')))"
  by (auto simp: bnd_def split: prod.splits sum.splits)

lemma bnd_ret [simp]: "bnd (ret x) f = f x"
  by (rule ext) (simp add: bnd_def ret_def)

lemma ret_eq [simp]: "ret x w = (r, w') \<longleftrightarrow> r = Inr x \<and> w' = w"
  by (auto simp: ret_def)

lemma now_eq [simp]:
  "now env w = (r, w') \<longleftrightarrow> r = Inr (datetime_now env (tick w)) \<and> w' = w\<lparr>tick := Suc (tick w)\<rparr>"
  by (auto simp: now_def)

lemma execute_Inr_iff:
  "execute env stmt w = (Inr x, w') \<longleftrightarrow>
     (\<not> storage_fault env (tick w) \<and>
      (\<exists>d. stmt (current_timestamp env (tick w)) (db w) = Inr (x, d)
           \<and> w' = w\<lparr>tick := Suc (tick w), db := d\<rparr>))"
  by (auto simp: execute_def Let_def split: sum.splits prod.splits)

lemma execute_tick: "execute env stmt w = (r, w') \<Longrightarrow> tick w' = Suc (tick w)"
  by (auto simp: execute_def Let_def split: sum.splits prod.splits if_splits)

lemma get_connection_Inl:
  "get_connection env body w = (Inl e, w') \<Longrightarrow> db w' = db w"
  by (auto simp: get_connection_def split: prod.splits sum.splits)

lemma get_connection_Inr_iff:
  "get_connection env body w = (Inr x, w') \<longleftrightarrow>
     (\<exists>w1. body w = (Inr x, w1) \<and> \<not> storage_fault env (tick w1)
          \<and> w' = w1\<lparr>tick := Suc (tick w1)\<rparr>)"
  by (auto simp: get_connection_def bnd_def execute_def commit_def Let_def
           split: prod.splits sum.splits if_splits)

lemma record_changes_loop_effect:
  "record_changes_loop env iid old new fs w = (Inr u, w') \<Longrightarrow>
   \<exists>rows. w' = w\<lparr>db := (db w)\<lparr>incentive_changes := incentive_changes (db w) @ rows\<rparr>,
                  tick := tick w + length rows\<rparr>
     \<and> map (\<lambda>c. (chg_incentive_id c, chg_field_name c, chg_old_value c, chg_new_value c)) rows
         = map (\<lambda>f. (iid, f, field_value old f, field_value new f))
             (filter (\<lambda>f. field_value old f \<noteq> field_value new f) fs)
     \<and> map chg_detected_at rows = map (current_timestamp env) [tick w ..< tick w + length rows]"
proof (induction fs arbitrary: w)
  case Nil
  then show ?case by (intro exI [of _ "[]"]) simp
next
  case (Cons f fs)
  show ?case
  proof (cases "field_value old f = field_value new f")
    case True
    with Cons.prems have "record_changes_loop env iid old new fs w = (Inr u, w')"
      by simp
    from Cons.IH [OF this] True show ?thesis by simp
  next
    case False
    with Cons.prems obtain w1 where
      ex: "execute env (insert_change iid f (field_value old f) (field_value new f)) w = (Inr (), w1)"
      and rest: "record_changes_loop env iid old new fs w1 = (Inr u, w')"
      by (auto simp: bnd_Inr_iff)
    define row where "row = \<lparr>chg_id = next_id (map chg_id (incentive_changes (db w))),
         chg_incentive_id = iid, chg_field_name = f,
         chg_old_value = field_value old f, chg_new_value = field_value new f,
         chg_detected_at = current_timestamp env (tick w)\<rparr>"
    from ex have w1: "w1 = w\<lparr>tick := Suc (tick w),
        db := (db w)\<lparr>incentive_changes := incentive_changes (db w) @ [row]\<rparr>\<rparr>"
      by (auto simp: execute_Inr_iff insert_change_def row_def)
    from Cons.IH [OF rest] obtain rows where
      r1: "w' = w1\<lparr>db := (db w1)\<lparr>incentive_changes := incentive_changes (db w1) @ rows\<rparr>,
                  tick := tick w1 + length rows\<rparr>"
      and r2: "map (\<lambda>c. (chg_incentive_id c, chg_field_name c, chg_old_value c, chg_new_value c)) rows
         = map (\<lambda>f. (iid, f, field_value old f, field_value new f))
             (filter (\<lambda>f. field_value old f \<noteq> field_value new f) fs)"
      and r3: "map chg_detected_at rows = map (current_timestamp env) [tick w1 ..< tick w1 + length rows]"
      by blast
    have t: "[tick w ..< tick w + length (row # rows)]
               = tick w # [Suc (tick w) ..< Suc (tick w) + length rows]"
    proof -
      have "tick w < tick w + length (row # rows)" by simp
      from upt_conv_Cons [OF this] show ?thesis by simp
    qed
    show ?thesis
    proof (intro exI [of _ "row # rows"] conjI)
      show "w' = w\<lparr>db := (db w)\<lparr>incentive_changes := incentive_changes (db w) @ row # rows\<rparr>,
                  tick := tick w + length (row # rows)\<rparr>"
        using r1 w1 by simp
      show "map (\<lambda>c. (chg_incentive_id c, chg_field_name c, chg_old_value c, chg_new_value c)) (row # rows)
         = map (\<lambda>f. (iid, f, field_value old f, field_value new f))
             (filter (\<lambda>f. field_value old f \<noteq> field_value new f) (f # fs))"
        using r2 False by (simp add: row_def)
      show "map chg_detected_at (row # rows)
              = map (current_timestamp env) [tick w ..< tick w + length (row # rows)]"
        unfolding t using r3 w1 by (simp add: row_def)
    qed
  qed
qed

lemma record_changes_loop_succeeds:
  "\<forall>n. \<not> storage_fault env n \<Longrightarrow> \<exists>w'. record_changes_loop env iid old new fs w = (Inr (), w')"
proof (induction fs arbitrary: w)
  case Nil
  then show ?case by simp
next
  case (Cons f fs)
  show ?case
  proof (cases "field_value old f = field_value new f")
    case True
    then show ?thesis using Cons by simp
  next
    case False
    have "\<exists>w1. execute env (insert_change iid f (field_value old f) (field_value new f)) w = (Inr (), w1)"
      using Cons.prems by (simp add: execute_Inr_iff insert_change_def)
    then obtain w1 where
      "execute env (insert_change iid f (field_value old f) (field_value new f)) w = (Inr (), w1)" ..
    moreover obtain w' where "record_changes_loop env iid old new fs w1 = (Inr (), w')"
      using Cons.IH [OF Cons.prems] by blast
    ultimately show ?thesis using False by (auto simp: bnd_Inr_iff)
  qed
qed

lemma select_latest_snapshot_incentives [simp]:
  "select_latest_snapshot i (d\<lparr>incentives := x\<rparr>) = select_latest_snapshot i d"
  by (simp add: select_latest_snapshot_def)

lemma record_incentive_Inr_new:
  assumes "record_incentive env dsire_id data w = (Inr res, w')"
    and "select_incentive dsire_id (db w) = None"
  shows "res = (True, False) \<and>
    (\<exists>n st pt.
       bind_param 2 (dict_get_default data ''name'' (JStr ''Unknown'')) = Inr (Some n)
     \<and> bind_param 3 (dict_get_default data ''state'' (JStr '''')) = Inr st
     \<and> bind_param 4 (dict_get_default data ''program_type'' (JStr '''')) = Inr pt
     \<and> w' = w\<lparr>tick := tick w + 5,
              db := (db w)\<lparr>incentives := incentives (db w) @
                 [\<lparr>inc_id = next_id (map inc_id (incentives (db w))), inc_dsire_id = dsire_id,
                   inc_name = n, inc_state = st, inc_program_type = pt,
                   inc_first_seen_at = datetime_now env (tick w),
                   inc_last_seen_at = datetime_now env (tick w),
                   inc_last_updated_at = None, inc_data_hash = compute_hash env data,
                   inc_is_active = True,
                   inc_created_at = current_timestamp env (tick w + 2)\<rparr>],
               incentive_snapshots := incentive_snapshots (db w) @
                 [\<lparr>snap_id = next_id (map snap_id (incentive_snapshots (db w))),
                   snap_incentive_id = next_id (map inc_id (incentives (db w))),
                   snap_data_json = data, snap_data_hash = compute_hash env data,
                   snap_scraped_at = current_timestamp env (tick w + 3)\<rparr>]\<rparr>\<rparr>)"
  using assms
  by (auto simp: record_incentive_def Let_def bnd_Inr_iff get_connection_Inr_iff
        record_incentive_body_def execute_Inr_iff insert_incentive_def insert_snapshot_def
        eval_nat_numeral
        split: sum.splits option.splits if_splits)

lemma record_incentive_Inr_same:
  assumes "record_incentive env dsire_id data w = (Inr res, w')"
    and "select_incentive dsire_id (db w) = Some row"
    and "inc_data_hash row = compute_hash env data"
  shows "res = (False, False) \<and>
     w' = w\<lparr>tick := tick w + 4,
            db := (db w)\<lparr>incentives := map (\<lambda>r. if inc_id r = inc_id row
                    then r\<lparr>inc_last_seen_at := datetime_now env (tick w), inc_is_active := True\<rparr>
                    else r) (incentives (db w))\<rparr>\<rparr>"
  using assms
  by (auto simp: record_incentive_def Let_def bnd_Inr_iff get_connection_Inr_iff
        record_incentive_body_def execute_Inr_iff update_last_seen_def
        eval_nat_numeral
        split: sum.splits option.splits if_splits)

lemma execute_select_Inr_iff:
  "execute env (\<lambda>ts d. Inr (f d, d)) w = (Inr x, w') \<longleftrightarrow>
     \<not> storage_fault env (tick w) \<and> x = f (db w) \<and> w' = w\<lparr>tick := Suc (tick w)\<rparr>"
  by (auto simp: execute_Inr_iff)

lemma execute_update_last_seen_Inr_iff:
  "execute env (update_last_seen seen i) w = (Inr x, w') \<longleftrightarrow>
     \<not> storage_fault env (tick w) \<and>
     w' = w\<lparr>tick := Suc (tick w),
            db := (db w)\<lparr>incentives := map (\<lambda>r. if inc_id r = i
                    then r\<lparr>inc_last_seen_at := seen, inc_is_active := True\<rparr> else r)
                  (incentives (db w))\<rparr>\<rparr>"
  by (auto simp: execute_Inr_iff update_last_seen_def)

lemma record_incentive_Inr_updated:
  assumes run: "record_incentive env dsire_id data w = (Inr res, w')"
    and sel: "select_incentive dsire_id (db w) = Some row"
    and neq: "inc_data_hash row \<noteq> compute_hash env data"
  shows "res = (False, True) \<and>
    (\<exists>rows.
       w' = w\<lparr>tick := tick w + 7 + length rows,
              db := (db w)\<lparr>incentives := map (\<lambda>r. if inc_id r = inc_id row
                      then r\<lparr>inc_last_seen_at := datetime_now env (tick w),
                             inc_is_active := True,
                             inc_data_hash := compute_hash env data,
                             inc_last_updated_at := Some (datetime_now env (tick w))\<rparr>
                      else r) (incentives (db w)),
                 incentive_snapshots := incentive_snapshots (db w) @
                   [\<lparr>snap_id = next_id (map snap_id (incentive_snapshots (db w))),
                     snap_incentive_id = inc_id row,
                     snap_data_json = data, snap_data_hash = compute_hash env data,
                     snap_scraped_at = current_timestamp env (tick w + 4 + length rows)\<rparr>],
                 incentive_changes := incentive_changes (db w) @ rows\<rparr>\<rparr>
     \<and> (case select_latest_snapshot (inc_id row) (db w) of
          None \<Rightarrow> rows = []
        | Some snap \<Rightarrow>
            map (\<lambda>c. (chg_incentive_id c, chg_field_name c, chg_old_value c, chg_new_value c)) rows
              = map (\<lambda>f. (inc_id row, f, field_value (snap_data_json snap) f, field_value data f))
                  (filter (\<lambda>f. field_value (snap_data_json snap) f \<noteq> field_value data f)
                     tracked_fields)
          \<and> map chg_detected_at rows
              = map (current_timestamp env) [tick w + 4 ..< tick w + 4 + length rows]))"
proof -
  define h where "h = compute_hash env data"
  define seen where "seen = datetime_now env (tick w)"
  define w1 where "w1 = w\<lparr>tick := Suc (tick w)\<rparr>"
  define d2 where "d2 = (db w)\<lparr>incentives := map (\<lambda>r. if inc_id r = inc_id row
                    then r\<lparr>inc_last_seen_at := seen, inc_is_active := True\<rparr> else r)
                  (incentives (db w))\<rparr>"
  define w4 where "w4 = w\<lparr>db := d2, tick := tick w + 4\<rparr>"
  from run obtain wb where
    body: "record_incentive_body env dsire_id data h seen w1 = (Inr res, wb)"
    and w': "w' = wb\<lparr>tick := Suc (tick wb)\<rparr>"
    by (auto simp: record_incentive_def Let_def bnd_Inr_iff get_connection_Inr_iff
          h_def seen_def w1_def)
  from body sel neq obtain u w5 w6 where
    rc: "(case select_latest_snapshot (inc_id row) (db w) of
            Some snap \<Rightarrow> record_changes env (inc_id row) (snap_data_json snap) data
          | None \<Rightarrow> ret ()) w4 = (Inr u, w5)"
    and sn: "execute env (insert_snapshot (inc_id row) data h) w5 = (Inr (), w6)"
    and uh: "execute env (update_hash h seen (inc_id row)) w6 = (Inr (), wb)"
    and res: "res = (False, True)"
    by (auto simp: record_incentive_body_def bnd_Inr_iff execute_select_Inr_iff
          execute_update_last_seen_Inr_iff w1_def h_def w4_def d2_def eval_nat_numeral)
  have "\<exists>rows. w5 = w4\<lparr>db := (db w4)\<lparr>incentive_changes := incentive_changes (db w4) @ rows\<rparr>,
                  tick := tick w4 + length rows\<rparr>
     \<and> (case select_latest_snapshot (inc_id row) (db w) of
          None \<Rightarrow> rows = []
        | Some snap \<Rightarrow>
            map (\<lambda>c. (chg_incentive_id c, chg_field_name c, chg_old_value c, chg_new_value c)) rows
              = map (\<lambda>f. (inc_id row, f, field_value (snap_data_json snap) f, field_value data f))
                  (filter (\<lambda>f. field_value (snap_data_json snap) f \<noteq> field_value data f)
                     tracked_fields)
          \<and> map chg_detected_at rows
              = map (current_timestamp env) [tick w4 ..< tick w4 + length rows])"
  proof (cases "select_latest_snapshot (inc_id row) (db w)")
    case None
    with rc show ?thesis by (intro exI [of _ "[]"]) simp
  next
    case (Some snap)
    with rc have "record_changes_loop env (inc_id row) (snap_data_json snap) data tracked_fields w4
                    = (Inr u, w5)"
      by (simp add: record_changes_def)
    from record_changes_loop_effect [OF this] Some show ?thesis by simp
  qed
  then obtain rows where
    w5: "w5 = w4\<lparr>db := (db w4)\<lparr>incentive_changes := incentive_changes (db w4) @ rows\<rparr>,
                  tick := tick w4 + length rows\<rparr>"
    and rows: "(case select_latest_snapshot (inc_id row) (db w) of
          None \<Rightarrow> rows = []
        | Some snap \<Rightarrow>
            map (\<lambda>c. (chg_incentive_id c, chg_field_name c, chg_old_value c, chg_new_value c)) rows
              = map (\<lambda>f. (inc_id row, f, field_value (snap_data_json snap) f, field_value data f))
                  (filter (\<lambda>f. field_value (snap_data_json snap) f \<noteq> field_value data f)
                     tracked_fields)
          \<and> map chg_detected_at rows
              = map (current_timestamp env) [tick w4 ..< tick w4 + length rows])"
    by blast
  have t4: "tick w4 = tick w + 4" by (simp add: w4_def)
  have comp: "map (\<lambda>r. if inc_id r = inc_id row
                    then r\<lparr>inc_data_hash := h, inc_last_updated_at := Some seen\<rparr> else r)
               (map (\<lambda>r. if inc_id r = inc_id row
                    then r\<lparr>inc_last_seen_at := seen, inc_is_active := True\<rparr> else r)
                  (incentives (db w)))
             = map (\<lambda>r. if inc_id r = inc_id row
                      then r\<lparr>inc_last_seen_at := seen, inc_is_active := True,
                             inc_data_hash := h, inc_last_updated_at := Some seen\<rparr>
                      else r) (incentives (db w))"
    by simp
  have "w' = w\<lparr>tick := tick w + 7 + length rows,
              db := (db w)\<lparr>incentives := map (\<lambda>r. if inc_id r = inc_id row
                      then r\<lparr>inc_last_seen_at := seen, inc_is_active := True,
                             inc_data_hash := h, inc_last_updated_at := Some seen\<rparr>
                      else r) (incentives (db w)),
                 incentive_snapshots := incentive_snapshots (db w) @
                   [\<lparr>snap_id = next_id (map snap_id (incentive_snapshots (db w))),
                     snap_incentive_id = inc_id row,
                     snap_data_json = data, snap_data_hash = h,
                     snap_scraped_at = current_timestamp env (tick w + 4 + length rows)\<rparr>],
                 incentive_changes := incentive_changes (db w) @ rows\<rparr>\<rparr>"
    using sn uh w' w5 comp
    by (auto simp: execute_Inr_iff insert_snapshot_def update_hash_def w4_def d2_def)
  with rows res show ?thesis
    unfolding t4 h_def seen_def by blast
qed

lemma execute_total_succeeds:
  "\<not> storage_fault env (tick w) \<Longrightarrow> (\<And>ts d. \<exists>x d'. stmt ts d = Inr (x, d'))
   \<Longrightarrow> \<exists>x w'. execute env stmt w = (Inr x, w')"
proof -
  assume nf: "\<not> storage_fault env (tick w)" and tot: "\<And>ts d. \<exists>x d'. stmt ts d = Inr (x, d')"
  from tot [of "current_timestamp env (tick w)" "db w"] obtain x d'
    where "stmt (current_timestamp env (tick w)) (db w) = Inr (x, d')" by blast
  with nf show ?thesis by (auto simp: execute_Inr_iff)
qed

lemma record_incentive_succeeds_existing:
  assumes nf: "\<forall>n. \<not> storage_fault env n"
    and sel: "select_incentive dsire_id (db w) = Some row"
  shows "\<exists>res w'. record_incentive env dsire_id data w = (Inr res, w')"
proof (cases "inc_data_hash row = compute_hash env data")
  case True
  with nf sel show ?thesis
    by (auto simp: record_incentive_def Let_def bnd_Inr_iff get_connection_Inr_iff
          record_incentive_body_def execute_select_Inr_iff execute_update_last_seen_Inr_iff)
next
  case False
  let ?h = "compute_hash env data"
  let ?seen = "datetime_now env (tick w)"
  let ?w4 = "w\<lparr>db := (db w)\<lparr>incentives := map (\<lambda>r. if inc_id r = inc_id row
                    then r\<lparr>inc_last_seen_at := ?seen, inc_is_active := True\<rparr> else r)
                  (incentives (db w))\<rparr>, tick := Suc (Suc (Suc (Suc (tick w))))\<rparr>"
  have "\<exists>w5. (case select_latest_snapshot (inc_id row) (db w) of
            Some snap \<Rightarrow> record_changes env (inc_id row) (snap_data_json snap) data
          | None \<Rightarrow> ret ()) ?w4 = (Inr (), w5)"
    using record_changes_loop_succeeds [OF nf]
    by (cases "select_latest_snapshot (inc_id row) (db w)") (simp_all add: record_changes_def)
  then obtain w5 where rc: "(case select_latest_snapshot (inc_id row) (db w) of
            Some snap \<Rightarrow> record_changes env (inc_id row) (snap_data_json snap) data
          | None \<Rightarrow> ret ()) ?w4 = (Inr (), w5)" ..
  obtain w6 where sn: "execute env (insert_snapshot (inc_id row) data ?h) w5 = (Inr (), w6)"
    using nf by (auto simp: execute_Inr_iff insert_snapshot_def)
  obtain w7 where uh: "execute env (update_hash ?h ?seen (inc_id row)) w6 = (Inr (), w7)"
    using nf by (auto simp: execute_Inr_iff update_hash_def)
  have "record_incentive_body env dsire_id data ?h ?seen (w\<lparr>tick := Suc (tick w)\<rparr>)
          = (Inr (False, True), w7)"
    using nf sel False rc sn uh
    by (auto simp: record_incentive_body_def bnd_Inr_iff execute_select_Inr_iff
          execute_update_last_seen_Inr_iff)
  with nf show ?thesis
    by (auto simp: record_incentive_def Let_def bnd_Inr_iff get_connection_Inr_iff)
qed

lemma record_incentive_succeeds_new:
  assumes nf: "\<forall>n. \<not> storage_fault env n"
    and sel: "select_incentive dsire_id (db w) = None"
    and b2: "bind_param 2 (dict_get_default data ''name'' (JStr ''Unknown'')) = Inr (Some n)"
    and b3: "bind_param 3 (dict_get_default data ''state'' (JStr '''')) = Inr st"
    and b4: "bind_param 4 (dict_get_default data ''program_type'' (JStr '''')) = Inr pt"
  shows "\<exists>res w'. record_incentive env dsire_id data w = (Inr res, w')"
  using assms
  by (auto simp: record_incentive_def Let_def bnd_Inr_iff get_connection_Inr_iff
        record_incentive_body_def execute_Inr_iff insert_incentive_def insert_snapshot_def)

lemma find_snoc:
  "find P (xs @ [x]) = (case find P xs of Some y \<Rightarrow> Some y | None \<Rightarrow> if P x then Some x else None)"
  by (induction xs) simp_all

lemma select_incentive_append:
  "select_incentive i (d\<lparr>incentives := incentives d @ [r]\<rparr>) =
     (case select_incentive i d of
        Some x \<Rightarrow> Some x
      | None \<Rightarrow> if inc_dsire_id r = i then Some r else None)"
  by (simp add: select_incentive_def find_snoc)

lemma select_incentive_snapshots [simp]:
  "select_incentive i (d\<lparr>incentive_snapshots := x\<rparr>) = select_incentive i d"
  by (simp add: select_incentive_def)



lemma sort_key_canonical:
  assumes "distinct (map fst xs)" "distinct (map fst ys)" "set xs = set ys"
  shows "sort_key fst xs = sort_key fst ys"
proof (rule map_sorted_distinct_set_unique [where f = fst])
  from assms(1) have "inj_on fst (set xs)"
    by (simp add: distinct_map)
  with assms(3) show "inj_on fst (set (sort_key fst xs) \<union> set (sort_key fst ys))"
    by simp
  show "sorted (map fst (sort_key fst xs))" "sorted (map fst (sort_key fst ys))"
    by simp_all
  show "distinct (map fst (sort_key fst xs))"
    using assms(1) by (simp add: distinct_map)
  show "distinct (map fst (sort_key fst ys))"
    using assms(2) by (simp add: distinct_map)
  show "set (sort_key fst xs) = set (sort_key fst ys)"
    using assms(3) by simp
qed

lemma json_dumps_sorted_order_independent:
  assumes d1: "distinct (map fst d1)" and d2: "distinct (map fst d2)"
    and eq: "map_of d1 = map_of d2"
  shows "json_dumps True (JObj d1) = json_dumps True (JObj d2)"
proof -
  from d1 d2 eq have s: "set d1 = set d2"
    by (simp add: map_of_inject_set)
  let ?g = "map_prod id (json_dumps True)"
  have "sort_key fst (map ?g d1) = sort_key fst (map ?g d2)"
  proof (rule sort_key_canonical)
    show "distinct (map fst (map ?g d1))" using d1 by (simp add: comp_def)
    show "distinct (map fst (map ?g d2))" using d2 by (simp add: comp_def)
    show "set (map ?g d1) = set (map ?g d2)" using s by simp
  qed
  then show ?thesis by simp
qed

subsection \<open>Serialisations that differ\<close>

lemma digit_char_inj:
  "n < 16 \<Longrightarrow> m < 16 \<Longrightarrow> digit_char n = digit_char m \<Longrightarrow> n = m"
proof -
  assume n: "n < 16" and m: "m < 16" and eq: "digit_char n = digit_char m"
  have d: "distinct ''0123456789abcdef''" by simp
  have l: "length ''0123456789abcdef'' = 16" by simp
  from nth_eq_iff_index_eq [OF d, of n m] n m eq l show "n = m"
    by (simp add: digit_char_def)
qed

lemma hex2_inj:
  assumes "n < 256" "m < 256" "hex2 n = hex2 m"
  shows "n = m"
proof -
  from assms(1,2) have b: "n div 16 < 16" "m div 16 < 16" "n mod 16 < 16" "m mod 16 < 16"
    by simp_all
  from assms(3) have "digit_char (n div 16) = digit_char (m div 16)"
    and "digit_char (n mod 16) = digit_char (m mod 16)"
    by (simp_all add: hex2_def)
  then have "n div 16 = m div 16" "n mod 16 = m mod 16"
    using digit_char_inj [of "n div 16" "m div 16"] digit_char_inj [of "n mod 16" "m mod 16"] b
    by blast+
  then show ?thesis
    by (metis div_mult_mod_eq)
qed

lemma of_char_less_256: "(of_char c :: nat) < 256"
  by (cases c) (simp add: of_char_Char horner_sum_eq_sum)

lemma hex2_append_inj:
  assumes "hex2 n @ r = hex2 m @ s" "n < 256" "m < 256"
  shows "n = m"
proof -
  from assms(1) have "hex2 n = hex2 m"
    by (simp add: hex2_def)
  with assms(2,3) show ?thesis by (rule hex2_inj)
qed

lemma of_char_inj_nat: "(of_char c :: nat) = of_char d \<Longrightarrow> c = d"
  by (metis char_of_char)

lemma json_escape_char_prefix:
  assumes "json_escape_char c @ r = json_escape_char d @ s"
  shows "c = d"
proof -
  have u: "hex2 (of_char c) @ r = hex2 (of_char d) @ s \<Longrightarrow> c = d"
    using hex2_append_inj [of "of_char c" r "of_char d" s] of_char_less_256 of_char_inj_nat
    by blast
  from assms show ?thesis
    by (auto simp: json_escape_char_def split: if_splits dest: u)
qed

lemma json_escape_char_nonempty: "json_escape_char c \<noteq> []"
  by (simp add: json_escape_char_def)

lemma json_escape_inj:
  "concat (map json_escape_char s) = concat (map json_escape_char t) \<Longrightarrow> s = t"
proof (induction s arbitrary: t)
  case Nil
  then show ?case
    by (cases t) (simp_all add: json_escape_char_nonempty)
next
  case (Cons c s)
  show ?case
  proof (cases t)
    case Nil
    with Cons.prems show ?thesis by (simp add: json_escape_char_nonempty)
  next
    case (Cons d t')
    with Cons.prems have eq: "json_escape_char c @ concat (map json_escape_char s)
                              = json_escape_char d @ concat (map json_escape_char t')"
      by simp
    from json_escape_char_prefix [OF eq] have cd: "c = d" .
    with eq have "concat (map json_escape_char s) = concat (map json_escape_char t')"
      by simp
    from Cons.IH [OF this] cd Cons show ?thesis by simp
  qed
qed

lemma json_string_inj: "json_string s = json_string t \<Longrightarrow> s = t"
  by (auto simp: json_string_def dest: json_escape_inj)

lemma insort_key_map_same_keys:
  "(\<And>x. fst (h x) = fst x) \<Longrightarrow>
   insort_key fst (h x) (map h ys) = map h (insort_key fst x ys)"
  by (induction ys) simp_all

lemma sort_key_map_same_keys:
  assumes "\<And>x. fst (h x) = fst x"
  shows "sort_key fst (map h xs) = map h (sort_key fst xs)"
proof (induction xs)
  case Nil
  show ?case by simp
next
  case (Cons x xs)
  then show ?case
    by (simp add: insort_key_map_same_keys [of h, OF assms])
qed

lemma distinct_keys_sort_key:
  "distinct (map fst xs) \<Longrightarrow> distinct (map fst (sort_key fst xs))"
  by (simp add: distinct_map)

lemma join_Cons: "join sep (x # xs) = x @ (if xs = [] then [] else sep @ join sep xs)"
  by (cases xs) simp_all

lemma map_replace_absent:
  "k \<notin> fst ` set s \<Longrightarrow> map (\<lambda>kv. if fst kv = k then (k, v) else kv) s = s"
  by (induction s) auto

lemma join_items_differ:
  assumes "distinct (map fst s)" "(k, v1) \<in> set s" "v1 \<noteq> v2"
  shows "join sep (map json_item (map (\<lambda>kv. if fst kv = k then (k, v2) else kv) s))
           \<noteq> join sep (map json_item s)"
  using assms
proof (induction s)
  case Nil
  then show ?case by simp
next
  case (Cons x s)
  let ?h = "\<lambda>kv. if fst kv = k then (k, v2) else kv"
  show ?case
  proof (cases "fst x = k")
    case True
    with Cons.prems(1) have absent: "k \<notin> fst ` set s" by auto
    with Cons.prems(2) have x: "x = (k, v1)"
      by (auto simp: image_iff)
    have "map ?h s = s"
      using absent by (rule map_replace_absent)
    then show ?thesis
      using Cons.prems(3) by (simp add: join_Cons x json_item_def)
  next
    case False
    with Cons.prems(2) have mem: "(k, v1) \<in> set s" by auto
    then have ne: "s \<noteq> []" by auto
    from Cons.prems(1) have "distinct (map fst s)" by simp
    from Cons.IH [OF this mem Cons.prems(3)] False ne show ?thesis
      by (simp add: join_Cons)
  qed
qed

lemma map_of_replace_other:
  "k' \<noteq> k \<Longrightarrow> map_of (map (\<lambda>kv. if fst kv = k then (k, v) else kv) d) k' = map_of d k'"
  by (induction d) auto

lemma map_of_replace_same:
  "k \<in> fst ` set d \<Longrightarrow> map_of (map (\<lambda>kv. if fst kv = k then (k, v) else kv) d) k = Some v"
  by (induction d) auto

lemma json_dumps_scraped_at_differs:
  assumes k1: "distinct (map fst d1)" and k2: "distinct (map fst d2)"
    and s1: "map_of d1 ''scraped_at'' = Some (JStr t1)"
    and s2: "map_of d2 ''scraped_at'' = Some (JStr t2)"
    and t: "t1 \<noteq> t2"
    and rest: "\<forall>k. k \<noteq> ''scraped_at'' \<longrightarrow> map_of d1 k = map_of d2 k"
  shows "json_dumps True (JObj d1) \<noteq> json_dumps True (JObj d2)"
proof -
  let ?K = "''scraped_at''"
  let ?upd = "\<lambda>kv. if fst kv = ?K then (?K, JStr t2) else kv"
  let ?ren = "\<lambda>kv. if fst kv = ?K then (?K, json_string t2) else kv"
  let ?g = "map_prod id (json_dumps True)"
  let ?d2' = "map ?upd d1"
  let ?s = "sort_key fst (map ?g d1)"
  from s1 have mem: "(?K, JStr t1) \<in> set d1" by (rule map_of_SomeD)
  then have dom: "?K \<in> fst ` set d1" by (force simp: image_iff)
  have keys: "map fst ?d2' = map fst d1" by (induction d1) auto
  have k2': "distinct (map fst ?d2')" using k1 by (simp only: keys)
  have "map_of ?d2' = map_of d2"
  proof (rule ext)
    fix k show "map_of ?d2' k = map_of d2 k"
      using map_of_replace_same [OF dom, of "JStr t2"] s2 rest
      by (cases "k = ?K") (simp_all add: map_of_replace_other)
  qed
  from json_dumps_sorted_order_independent [OF k2' k2 this]
  have e2: "json_dumps True (JObj d2) = json_dumps True (JObj ?d2')" by simp
  have "map ?g ?d2' = map ?ren (map ?g d1)"
    by (induction d1) auto
  then have "sort_key fst (map ?g ?d2') = sort_key fst (map ?ren (map ?g d1))"
    by (simp only:)
  also have "\<dots> = map ?ren ?s"
    by (rule sort_key_map_same_keys) simp
  finally have sorted2: "sort_key fst (map ?g ?d2') = map ?ren ?s" .
  have "map fst (map ?g d1) = map fst d1" by simp
  with k1 have "distinct (map fst (map ?g d1))" by (simp only:)
  then have ds: "distinct (map fst ?s)" by (rule distinct_keys_sort_key)
  from mem have "?g (?K, JStr t1) \<in> set (map ?g d1)" by (simp add: image_iff) force
  then have ms: "(?K, json_string t1) \<in> set ?s" by simp
  from t have "json_string t1 \<noteq> json_string t2" by (auto dest: json_string_inj)
  from join_items_differ [OF ds ms this, of "'', ''"]
  have J: "join '', '' (map json_item (map ?ren ?s)) \<noteq> join '', '' (map json_item ?s)" .
  have A: "json_dumps True (JObj ?d2')
             = ''{'' @ join '', '' (map json_item (map ?ren ?s)) @ ''}''"
    by (simp only: json_dumps.simps if_True sorted2)
  have B: "json_dumps True (JObj d1) = ''{'' @ join '', '' (map json_item ?s) @ ''}''"
    by (simp only: json_dumps.simps if_True)
  show ?thesis
  proof
    assume "json_dumps True (JObj d1) = json_dumps True (JObj d2)"
    with e2 have "json_dumps True (JObj ?d2') = json_dumps True (JObj d1)"
      by (simp only:)
    then have "''{'' @ join '', '' (map json_item (map ?ren ?s)) @ ''}''
                 = ''{'' @ join '', '' (map json_item ?s) @ ''}''"
      by (simp only: A B)
    then have "join '', '' (map json_item (map ?ren ?s)) = join '', '' (map json_item ?s)"
      by (simp only: append_same_eq same_append_eq)
    with J show False by (rule notE)
  qed
qed

subsection \<open>Programs without an id\<close>

lemma dec_nat_nonempty: "dec_nat n \<noteq> []"
  by (subst dec_nat.simps) simp

lemma py_repr_nonempty: "py_repr v \<noteq> []"
  by (cases v) (simp_all add: dec_int_def dec_nat_nonempty repr_str_def Let_def)

lemma py_str_empty_iff: "py_str v = [] \<longleftrightarrow> v = JStr []"
  by (cases v) (simp_all add: py_str_def dec_int_def dec_nat_nonempty repr_str_def Let_def)

lemma program_id_empty_iff: "program_id d = [] \<longleftrightarrow> lacks_id d"
  by (auto simp: program_id_def lacks_id_def dict_get_def dict_get_default_def py_str_empty_iff
           split: option.splits)

subsection \<open>A call that cannot fail\<close>

lemma insertableD:
  "insertable data \<Longrightarrow>
   \<exists>n st pt. bind_param 2 (dict_get_default data ''name'' (JStr ''Unknown'')) = Inr (Some n)
     \<and> bind_param 3 (dict_get_default data ''state'' (JStr '''')) = Inr st
     \<and> bind_param 4 (dict_get_default data ''program_type'' (JStr '''')) = Inr pt"
  by (auto simp: insertable_def split: sum.splits option.splits)

lemma select_incentive_known: "select_incentive i d \<noteq> None \<longleftrightarrow> i \<in> known_ids d"
  by (auto simp: select_incentive_def known_ids_def find_None_iff)

lemma select_incentive_SomeD:
  "select_incentive i d = Some row \<Longrightarrow> row \<in> set (incentives d) \<and> inc_dsire_id row = i"
  by (auto simp: select_incentive_def find_Some_iff)

lemma known_ids_map:
  "(\<And>r. inc_dsire_id (f r) = inc_dsire_id r) \<Longrightarrow>
   inc_dsire_id ` set (map f rows) = inc_dsire_id ` set rows"
  by (induction rows) auto

lemma known_ids_after_map:
  assumes "incentives d' = map f (incentives d)" and "\<And>r. inc_dsire_id (f r) = inc_dsire_id r"
  shows "known_ids d' = known_ids d"
proof -
  have "known_ids d' = inc_dsire_id ` set (map f (incentives d))"
    by (simp only: known_ids_def assms(1))
  also have "\<dots> = inc_dsire_id ` set (incentives d)"
    by (rule known_ids_map) (rule assms(2))
  finally show ?thesis by (simp only: known_ids_def)
qed

lemma record_incentive_total:
  assumes nf: "\<forall>n. \<not> storage_fault env n"
    and ok: "dsire_id \<in> known_ids (db w) \<or> insertable data"
  shows "\<exists>res w'. record_incentive env dsire_id data w = (Inr res, w')
     \<and> known_ids (db w') = insert dsire_id (known_ids (db w))
     \<and> scan_logs (db w') = scan_logs (db w)"
proof (cases "select_incentive dsire_id (db w)")
  case None
  then have "dsire_id \<notin> known_ids (db w)"
    using select_incentive_known [of dsire_id "db w"] by simp
  with ok have "insertable data" by simp
  from insertableD [OF this] obtain n st pt where
    b: "bind_param 2 (dict_get_default data ''name'' (JStr ''Unknown'')) = Inr (Some n)"
       "bind_param 3 (dict_get_default data ''state'' (JStr '''')) = Inr st"
       "bind_param 4 (dict_get_default data ''program_type'' (JStr '''')) = Inr pt"
    by blast
  from record_incentive_succeeds_new [OF nf None b] obtain res w' where
    run: "record_incentive env dsire_id data w = (Inr res, w')" by blast
  from record_incentive_Inr_new [OF run None] have
    "known_ids (db w') = insert dsire_id (known_ids (db w))"
    "scan_logs (db w') = scan_logs (db w)"
    by (auto simp: known_ids_def)
  with run show ?thesis by blast
next
  case (Some row)
  from select_incentive_SomeD [OF Some] have mem: "dsire_id \<in> known_ids (db w)"
    by (auto simp: known_ids_def)
  from record_incentive_succeeds_existing [OF nf Some] obtain res w' where
    run: "record_incentive env dsire_id data w = (Inr res, w')" by blast
  have "known_ids (db w') = known_ids (db w) \<and> scan_logs (db w') = scan_logs (db w)"
  proof (cases "inc_data_hash row = compute_hash env data")
    case True
    from record_incentive_Inr_same [OF run Some True] have
      inc: "incentives (db w') = map (\<lambda>r. if inc_id r = inc_id row
                    then r\<lparr>inc_last_seen_at := datetime_now env (tick w), inc_is_active := True\<rparr>
                    else r) (incentives (db w))"
      and logs: "scan_logs (db w') = scan_logs (db w)"
      by simp_all
    from inc have "known_ids (db w') = known_ids (db w)"
      by (rule known_ids_after_map) simp
    with logs show ?thesis by simp
  next
    case False
    from record_incentive_Inr_updated [OF run Some False] obtain rows where
      inc: "incentives (db w') = map (\<lambda>r. if inc_id r = inc_id row
                      then r\<lparr>inc_last_seen_at := datetime_now env (tick w),
                             inc_is_active := True,
                             inc_data_hash := compute_hash env data,
                             inc_last_updated_at := Some (datetime_now env (tick w))\<rparr>
                      else r) (incentives (db w))"
      and logs: "scan_logs (db w') = scan_logs (db w)"
      by auto
    from inc have "known_ids (db w') = known_ids (db w)"
      by (rule known_ids_after_map) simp
    with logs show ?thesis by simp
  qed
  with run mem show ?thesis by (auto simp: insert_absorb)
qed

subsection \<open>Scans whose records can all be recorded\<close>

lemma recordable_insertable:
  assumes "recordable env incl (JObj d)" and "\<not> lacks_id d"
  shows "if incl
         then (\<exists>details. get_program_details env n (program_id d) = Inr details
                 \<and> insertable (merged d details))
         else insertable d"
proof (cases incl)
  case True
  with assms have "case get_program_details env n (program_id d) of
                       Inr details \<Rightarrow> insertable (merged d details)
                     | Inl e \<Rightarrow> False"
    by (simp add: recordable_def)
  with True show ?thesis by (simp split: sum.splits)
next
  case False
  with assms show ?thesis by (simp add: recordable_def)
qed

lemma details_step:
  assumes "recordable env incl (JObj d)" and "\<not> lacks_id d"
  shows "\<exists>data w1. (if incl then fetch_details env (program_id d) d else ret d) w = (Inr data, w1)
           \<and> insertable data \<and> db w1 = db w"
proof (cases incl)
  case True
  from recordable_insertable [OF assms, of "tick w"] True obtain details where
    "get_program_details env (tick w) (program_id d) = Inr details"
    "insertable (merged d details)" by auto
  with True show ?thesis by (simp add: fetch_details_def)
next
  case False
  from recordable_insertable [OF assms] False have "insertable d" by simp
  with False show ?thesis by simp
qed

lemma run_scan_record_total:
  assumes nf: "\<forall>n. \<not> storage_fault env n"
    and rec: "recordable env (include_details cfg) (JObj d)"
    and nid: "\<not> lacks_id d"
  shows "\<exists>res' w'.
      run_scan_record env cfg state d (program_id d) res w = (Inr res', w')
    \<and> res_total_found res' = Suc (res_total_found res)
    \<and> res_errors res' = res_errors res
    \<and> res_scan_id res' = res_scan_id res
    \<and> known_ids (db w') = insert (program_id d) (known_ids (db w))
    \<and> scan_logs (db w') = scan_logs (db w)"
proof -
  from details_step [OF rec nid] obtain data w1 where
    step1: "(if include_details cfg then fetch_details env (program_id d) d else ret d) w
              = (Inr data, w1)"
    and ins: "insertable data" and db1: "db w1 = db w"
    by blast
  from record_incentive_total [OF nf, of "program_id d" w1 data] ins obtain r w2 where
    step2: "record_incentive env (program_id d) data w1 = (Inr r, w2)"
    and ids: "known_ids (db w2) = insert (program_id d) (known_ids (db w1))"
    and logs: "scan_logs (db w2) = scan_logs (db w1)"
    by blast
  obtain is_new is_updated where r: "r = (is_new, is_updated)" by (cases r)
  show ?thesis
    using step1 step2 ids logs db1 unfolding r run_scan_record_def
    by (cases is_new; cases is_updated) (auto simp: bnd_def Let_def now_def ret_def)
qed

lemma scan_states_record_total:
  assumes nf: "\<forall>n. \<not> storage_fault env n"
    and rec: "recordable env incl (JObj d)"
    and nid: "\<not> lacks_id d"
  shows "\<exists>res' w'.
      scan_states_record env incl d (program_id d) res w = (Inr res', w')
    \<and> res_total_found res' = Suc (res_total_found res)
    \<and> res_errors res' = res_errors res
    \<and> res_scan_id res' = res_scan_id res
    \<and> known_ids (db w') = insert (program_id d) (known_ids (db w))
    \<and> scan_logs (db w') = scan_logs (db w)"
proof -
  from details_step [OF rec nid] obtain data w1 where
    step1: "(if incl then fetch_details env (program_id d) d else ret d) w = (Inr data, w1)"
    and ins: "insertable data" and db1: "db w1 = db w"
    by blast
  from record_incentive_total [OF nf, of "program_id d" w1 data] ins obtain r w2 where
    step2: "record_incentive env (program_id d) data w1 = (Inr r, w2)"
    and ids: "known_ids (db w2) = insert (program_id d) (known_ids (db w1))"
    and logs: "scan_logs (db w2) = scan_logs (db w1)"
    by blast
  obtain is_new is_updated where r: "r = (is_new, is_updated)" by (cases r)
  show ?thesis
    using step1 step2 ids logs db1 unfolding r scan_states_record_def
    by (cases is_new; cases is_updated) (auto simp: bnd_def Let_def ret_def)
qed

lemma recordable_is_dict: "recordable env incl p \<Longrightarrow> \<exists>d. p = JObj d"
  by (cases p) (simp_all add: recordable_def)

lemma run_scan_programs_total:
  assumes nf: "\<forall>n. \<not> storage_fault env n"
    and all: "\<forall>p \<in> set ps. recordable env (include_details cfg) p"
  shows "\<exists>res' w'. run_scan_programs env cfg state ps res w = ((None, res'), w')
     \<and> res_total_found res' = res_total_found res + length (filter (\<lambda>p. \<not> skipped p) ps)
     \<and> res_errors res' = res_errors res
     \<and> res_scan_id res' = res_scan_id res
     \<and> known_ids (db w') = known_ids (db w) \<union> record_id ` {p \<in> set ps. \<not> skipped p}
     \<and> scan_logs (db w') = scan_logs (db w)"
  using all
proof (induction ps arbitrary: res w)
  case Nil
  show ?case by simp
next
  case (Cons p ps)
  from Cons.prems have rec: "recordable env (include_details cfg) p"
    and rest: "\<forall>p \<in> set ps. recordable env (include_details cfg) p"
    by simp_all
  from recordable_is_dict [OF rec] obtain d where p: "p = JObj d" by blast
  show ?case
  proof (cases "lacks_id d")
    case True
    from Cons.IH [OF rest, of res w] obtain res' w' where
      ih: "run_scan_programs env cfg state ps res w = ((None, res'), w')"
        "res_total_found res' = res_total_found res + length (filter (\<lambda>p. \<not> skipped p) ps)"
        "res_errors res' = res_errors res" "res_scan_id res' = res_scan_id res"
        "known_ids (db w') = known_ids (db w) \<union> record_id ` {p \<in> set ps. \<not> skipped p}"
        "scan_logs (db w') = scan_logs (db w)"
      by blast
    have sk: "skipped p" using True p by (simp add: skipped_def)
    have "run_scan_programs env cfg state (p # ps) res w = ((None, res'), w')"
      using ih(1) True p by (simp add: program_id_empty_iff)
    moreover have "{q \<in> set (p # ps). \<not> skipped q} = {q \<in> set ps. \<not> skipped q}"
      using sk by auto
    ultimately show ?thesis
      using ih(2-6) sk by (intro exI [of _ res'] exI [of _ w']) simp
  next
    case False
    from rec p have rec': "recordable env (include_details cfg) (JObj d)" by simp
    from run_scan_record_total [OF nf rec' False, of state res w] obtain res1 w1 where
      st: "run_scan_record env cfg state d (program_id d) res w = (Inr res1, w1)"
        "res_total_found res1 = Suc (res_total_found res)"
        "res_errors res1 = res_errors res" "res_scan_id res1 = res_scan_id res"
        "known_ids (db w1) = insert (program_id d) (known_ids (db w))"
        "scan_logs (db w1) = scan_logs (db w)"
      by blast
    from Cons.IH [OF rest, of res1 w1] obtain res' w' where
      ih: "run_scan_programs env cfg state ps res1 w1 = ((None, res'), w')"
        "res_total_found res' = res_total_found res1 + length (filter (\<lambda>p. \<not> skipped p) ps)"
        "res_errors res' = res_errors res1" "res_scan_id res' = res_scan_id res1"
        "known_ids (db w') = known_ids (db w1) \<union> record_id ` {p \<in> set ps. \<not> skipped p}"
        "scan_logs (db w') = scan_logs (db w1)"
      by blast
    have sk: "\<not> skipped p" using False p by (simp add: skipped_def)
    have "run_scan_programs env cfg state (p # ps) res w = ((None, res'), w')"
      using ih(1) st(1) False p by (simp add: program_id_empty_iff)
    moreover have "{q \<in> set (p # ps). \<not> skipped q} = insert p {q \<in> set ps. \<not> skipped q}"
      using sk by auto
    moreover have "record_id p = program_id d"
      using p by (simp add: record_id_def)
    ultimately show ?thesis
      using ih(2-6) st(2-6) sk by (intro exI [of _ res'] exI [of _ w']) simp
  qed
qed

lemma run_scan_state_ok:
  assumes nf: "\<forall>n. \<not> storage_fault env n"
    and fetch: "\<forall>n. get_programs_by_state env n s = Inr ps"
    and all: "\<forall>p \<in> set ps. recordable env (include_details cfg) p"
  shows "\<exists>res' w'. run_scan_state env cfg s res w = (res', w')
     \<and> res_total_found res' = res_total_found res + length (filter (\<lambda>p. \<not> skipped p) ps)
     \<and> res_errors res' = res_errors res
     \<and> res_scan_id res' = res_scan_id res
     \<and> known_ids (db w') = known_ids (db w) \<union> record_id ` {p \<in> set ps. \<not> skipped p}
     \<and> scan_logs (db w') = scan_logs (db w)"
proof -
  from run_scan_programs_total [OF nf all, of s res "w\<lparr>tick := Suc (tick w)\<rparr>"]
  obtain res' w' where
    "run_scan_programs env cfg s ps res (w\<lparr>tick := Suc (tick w)\<rparr>) = ((None, res'), w')"
    and facts: "res_total_found res' = res_total_found res + length (filter (\<lambda>p. \<not> skipped p) ps)"
      "res_errors res' = res_errors res" "res_scan_id res' = res_scan_id res"
      "known_ids (db w') = known_ids (db (w\<lparr>tick := Suc (tick w)\<rparr>))
          \<union> record_id ` {p \<in> set ps. \<not> skipped p}"
      "scan_logs (db w') = scan_logs (db (w\<lparr>tick := Suc (tick w)\<rparr>))"
    by blast
  then have "run_scan_state env cfg s res w = (res', w')"
    using fetch by (simp add: run_scan_state_def fetch_programs_def)
  with facts show ?thesis by (intro exI [of _ res'] exI [of _ w']) simp
qed

lemma run_scan_state_raises:
  assumes "\<forall>n. get_programs_by_state env n b = Inl e"
  shows "run_scan_state env cfg b res w =
           (res\<lparr>res_errors := res_errors res @ [''Error scanning '' @ b @ '': '' @ exn_str e]\<rparr>,
            w\<lparr>tick := Suc (tick w)\<rparr>)"
  using assms by (simp add: run_scan_state_def fetch_programs_def)

lemma run_scan_states_append:
  "run_scan_states env cfg (xs @ ys) res w =
     (case run_scan_states env cfg xs res w of (r, w1) \<Rightarrow> run_scan_states env cfg ys r w1)"
  by (induction xs arbitrary: res w) (simp_all split: prod.splits)

lemma run_scan_states_ok:
  assumes nf: "\<forall>n. \<not> storage_fault env n"
    and fetch: "\<forall>s \<in> set ss. \<forall>n. get_programs_by_state env n s = Inr (programs s)"
    and all: "\<forall>s \<in> set ss. \<forall>p \<in> set (programs s). recordable env (include_details cfg) p"
  shows "\<exists>res' w'. run_scan_states env cfg ss res w = (res', w')
     \<and> res_total_found res'
         = res_total_found res + length (filter (\<lambda>p. \<not> skipped p) (concat (map programs ss)))
     \<and> res_errors res' = res_errors res
     \<and> res_scan_id res' = res_scan_id res
     \<and> known_ids (db w')
         = known_ids (db w) \<union> record_id ` {p \<in> set (concat (map programs ss)). \<not> skipped p}
     \<and> scan_logs (db w') = scan_logs (db w)"
  using fetch all
proof (induction ss arbitrary: res w)
  case Nil
  show ?case by simp
next
  case (Cons s ss)
  from Cons.prems have f: "\<forall>n. get_programs_by_state env n s = Inr (programs s)"
    and a: "\<forall>p \<in> set (programs s). recordable env (include_details cfg) p"
    and f': "\<forall>s \<in> set ss. \<forall>n. get_programs_by_state env n s = Inr (programs s)"
    and a': "\<forall>s \<in> set ss. \<forall>p \<in> set (programs s). recordable env (include_details cfg) p"
    by simp_all
  from run_scan_state_ok [OF nf f a, of res w] obtain res1 w1 where
    st: "run_scan_state env cfg s res w = (res1, w1)"
      "res_total_found res1
         = res_total_found res + length (filter (\<lambda>p. \<not> skipped p) (programs s))"
      "res_errors res1 = res_errors res" "res_scan_id res1 = res_scan_id res"
      "known_ids (db w1) = known_ids (db w) \<union> record_id ` {p \<in> set (programs s). \<not> skipped p}"
      "scan_logs (db w1) = scan_logs (db w)"
    by blast
  from Cons.IH [OF f' a', of res1 w1] obtain res' w' where
    ih: "run_scan_states env cfg ss res1 w1 = (res', w')"
      "res_total_found res'
         = res_total_found res1 + length (filter (\<lambda>p. \<not> skipped p) (concat (map programs ss)))"
      "res_errors res' = res_errors res1" "res_scan_id res' = res_scan_id res1"
      "known_ids (db w')
         = known_ids (db w1) \<union> record_id ` {p \<in> set (concat (map programs ss)). \<not> skipped p}"
      "scan_logs (db w') = scan_logs (db w1)"
    by blast
  have ids: "known_ids (db w')
         = known_ids (db w)
             \<union> record_id ` {p \<in> set (concat (map programs (s # ss))). \<not> skipped p}"
    unfolding ih(5) st(5) by auto
  have "run_scan_states env cfg (s # ss) res w = (res', w')"
    using st(1) ih(1) by simp
  then show ?case
    using ih(2-4,6) st(2-4,6) ids by (intro exI [of _ res'] exI [of _ w']) simp
qed

lemma run_scan_states_one_failure:
  assumes nf: "\<forall>n. \<not> storage_fault env n"
    and fails: "\<forall>n. get_programs_by_state env n b = Inl e"
    and fetch: "\<forall>s \<in> set (xs @ ys). \<forall>n. get_programs_by_state env n s = Inr (programs s)"
    and all: "\<forall>s \<in> set (xs @ ys). \<forall>p \<in> set (programs s).
                recordable env (include_details cfg) p"
  shows "\<exists>res' w'. run_scan_states env cfg (xs @ b # ys) res w = (res', w')
     \<and> res_total_found res'
         = res_total_found res
             + length (filter (\<lambda>p. \<not> skipped p) (concat (map programs (xs @ ys))))
     \<and> res_errors res' = res_errors res @ [''Error scanning '' @ b @ '': '' @ exn_str e]
     \<and> res_scan_id res' = res_scan_id res
     \<and> known_ids (db w')
         = known_ids (db w)
             \<union> record_id ` {p \<in> set (concat (map programs (xs @ ys))). \<not> skipped p}
     \<and> scan_logs (db w') = scan_logs (db w)"
proof -
  from fetch all have fx: "\<forall>s \<in> set xs. \<forall>n. get_programs_by_state env n s = Inr (programs s)"
    and ax: "\<forall>s \<in> set xs. \<forall>p \<in> set (programs s). recordable env (include_details cfg) p"
    and fy: "\<forall>s \<in> set ys. \<forall>n. get_programs_by_state env n s = Inr (programs s)"
    and ay: "\<forall>s \<in> set ys. \<forall>p \<in> set (programs s). recordable env (include_details cfg) p"
    by auto
  from run_scan_states_ok [OF nf fx ax, of res w] obtain res1 w1 where
    x: "run_scan_states env cfg xs res w = (res1, w1)"
      "res_total_found res1
         = res_total_found res + length (filter (\<lambda>p. \<not> skipped p) (concat (map programs xs)))"
      "res_errors res1 = res_errors res" "res_scan_id res1 = res_scan_id res"
      "known_ids (db w1)
         = known_ids (db w) \<union> record_id ` {p \<in> set (concat (map programs xs)). \<not> skipped p}"
      "scan_logs (db w1) = scan_logs (db w)"
    by blast
  define res2 where
    "res2 = res1\<lparr>res_errors := res_errors res1 @ [''Error scanning '' @ b @ '': '' @ exn_str e]\<rparr>"
  define w2 where "w2 = w1\<lparr>tick := Suc (tick w1)\<rparr>"
  have b: "run_scan_state env cfg b res1 w1 = (res2, w2)"
    unfolding res2_def w2_def by (rule run_scan_state_raises [OF fails])
  from run_scan_states_ok [OF nf fy ay, of res2 w2] obtain res' w' where
    y: "run_scan_states env cfg ys res2 w2 = (res', w')"
      "res_total_found res'
         = res_total_found res2 + length (filter (\<lambda>p. \<not> skipped p) (concat (map programs ys)))"
      "res_errors res' = res_errors res2" "res_scan_id res' = res_scan_id res2"
      "known_ids (db w')
         = known_ids (db w2) \<union> record_id ` {p \<in> set (concat (map programs ys)). \<not> skipped p}"
      "scan_logs (db w') = scan_logs (db w2)"
    by blast
  have run: "run_scan_states env cfg (xs @ b # ys) res w = (res', w')"
    using x(1) b y(1) by (simp add: run_scan_states_append)
  have ids: "known_ids (db w')
         = known_ids (db w)
             \<union> record_id ` {p \<in> set (concat (map programs (xs @ ys))). \<not> skipped p}"
    unfolding y(5) w2_def using x(5) by auto
  show ?thesis
    using run y(2-4,6) x(2-4,6) ids
    by (intro exI [of _ res'] exI [of _ w']) (simp add: res2_def w2_def)
qed

lemma start_scan_ok:
  assumes nf: "\<forall>n. \<not> storage_fault env n"
  shows "\<exists>scan_id w'. start_scan env scan_type states w = (Inr scan_id, w')
     \<and> known_ids (db w') = known_ids (db w)
     \<and> map log_id (scan_logs (db w')) = map log_id (scan_logs (db w)) @ [scan_id]"
  using nf
  by (auto simp: start_scan_def get_connection_Inr_iff bnd_Inr_iff execute_Inr_iff
        insert_scan_log_def Let_def known_ids_def)

lemma end_scan_ok:
  assumes nf: "\<forall>n. \<not> storage_fault env n"
  shows "\<exists>w'. end_scan env scan_id status total_found new_count updated_count removed_count
                 error_message w = (Inr (), w')
     \<and> known_ids (db w') = known_ids (db w)
     \<and> scan_logs (db w') = map (\<lambda>r. if log_id r = scan_id
                    then r\<lparr>log_status := status,
                           log_completed_at := Some (datetime_now env (tick w)),
                           log_total_found := total_found, log_new_incentives := new_count,
                           log_updated_incentives := updated_count,
                           log_removed_incentives := removed_count,
                           log_error_message := error_message\<rparr>
                    else r) (scan_logs (db w))"
  using nf
  by (auto simp: end_scan_def get_connection_Inr_iff bnd_Inr_iff execute_Inr_iff
        update_scan_log_def known_ids_def)

lemma run_scan_one_failure:
  assumes nf: "\<forall>n. \<not> storage_fault env n"
    and fails: "\<forall>n. get_programs_by_state env n b = Inl e"
    and fetch: "\<forall>s \<in> set (xs @ ys). \<forall>n. get_programs_by_state env n s = Inr (programs s)"
    and all: "\<forall>s \<in> set (xs @ ys). \<forall>p \<in> set (programs s).
                recordable env (include_details cfg) p"
  shows "\<exists>res w'. run_scan env cfg (Some (xs @ b # ys)) scan_type w = (Inr res, w')
     \<and> res_errors res = [''Error scanning '' @ b @ '': '' @ exn_str e]
     \<and> res_status res = Some ''completed''
     \<and> res_total_found res
         = length (filter (\<lambda>p. \<not> skipped p) (concat (map programs (xs @ ys))))
     \<and> record_id ` {p \<in> set (concat (map programs (xs @ ys))). \<not> skipped p}
         \<subseteq> known_ids (db w')
     \<and> (\<exists>log \<in> set (scan_logs (db w')).
           log_id log = res_scan_id res \<and> log_status log = ''completed''
         \<and> log_total_found log = res_total_found res)"
proof -
  let ?states = "xs @ b # ys"
  have st: "states_or_today env cfg (Some ?states) w = (Inr ?states, w)"
    by (cases xs) (simp_all add: states_or_today_def)
  from start_scan_ok [OF nf, of scan_type ?states w] obtain scan_id w1 where
    s1: "start_scan env scan_type ?states w = (Inr scan_id, w1)"
    and ids1: "known_ids (db w1) = known_ids (db w)"
    and logs1: "map log_id (scan_logs (db w1)) = map log_id (scan_logs (db w)) @ [scan_id]"
    by blast
  define w2 where "w2 = w1\<lparr>tick := Suc (tick w1)\<rparr>"
  define res0 :: "(new_entry, updated_entry) scan_results" where
    "res0 = \<lparr>res_scan_id = scan_id, res_scan_type = Some scan_type, res_states = ?states,
              res_started_at = datetime_now env (tick w1), res_new_incentives = [],
              res_updated_incentives = [], res_total_found = 0, res_errors = [],
              res_completed_at = None, res_status = None, res_error = None\<rparr>"
  from run_scan_states_one_failure [OF nf fails fetch all, of res0 w2] obtain res1 w3 where
    loop: "run_scan_states env cfg ?states res0 w2 = (res1, w3)"
    and tot: "res_total_found res1
         = res_total_found res0
             + length (filter (\<lambda>p. \<not> skipped p) (concat (map programs (xs @ ys))))"
    and err: "res_errors res1 = res_errors res0 @ [''Error scanning '' @ b @ '': '' @ exn_str e]"
    and sid: "res_scan_id res1 = res_scan_id res0"
    and ids3: "known_ids (db w3)
         = known_ids (db w2)
             \<union> record_id ` {p \<in> set (concat (map programs (xs @ ys))). \<not> skipped p}"
    and logs3: "scan_logs (db w3) = scan_logs (db w2)"
    by blast
  from end_scan_ok [OF nf, of scan_id "''completed''" "res_total_found res1"
      "length (res_new_incentives res1)" "length (res_updated_incentives res1)" 0 None w3]
  obtain w4 where
    e4: "end_scan env scan_id ''completed'' (res_total_found res1)
           (length (res_new_incentives res1)) (length (res_updated_incentives res1)) 0 None w3
         = (Inr (), w4)"
    and ids4: "known_ids (db w4) = known_ids (db w3)"
    and logs4: "scan_logs (db w4) = map (\<lambda>r. if log_id r = scan_id
                    then r\<lparr>log_status := ''completed'',
                           log_completed_at := Some (datetime_now env (tick w3)),
                           log_total_found := res_total_found res1,
                           log_new_incentives := length (res_new_incentives res1),
                           log_updated_incentives := length (res_updated_incentives res1),
                           log_removed_incentives := 0,
                           log_error_message := None\<rparr>
                    else r) (scan_logs (db w3))"
    by blast
  define res where "res = res1\<lparr>res_completed_at := Some (datetime_now env (tick w4)),
                                res_status := Some ''completed''\<rparr>"
  define w5 where "w5 = w4\<lparr>tick := Suc (tick w4)\<rparr>"
  have run: "run_scan env cfg (Some ?states) scan_type w = (Inr res, w5)"
    using st s1 loop e4
    by (simp add: run_scan_def bnd_def now_def ret_def res0_def [symmetric] w2_def [symmetric]
          res_def w5_def)
  from logs1 have "scan_id \<in> set (map log_id (scan_logs (db w1)))"
    by simp
  then obtain row where row: "row \<in> set (scan_logs (db w3))" "log_id row = scan_id"
    using logs3 by (auto simp: w2_def)
  define closed where "closed = row\<lparr>log_status := ''completed'',
                           log_completed_at := Some (datetime_now env (tick w3)),
                           log_total_found := res_total_found res1,
                           log_new_incentives := length (res_new_incentives res1),
                           log_updated_incentives := length (res_updated_incentives res1),
                           log_removed_incentives := 0,
                           log_error_message := None\<rparr>"
  have "closed \<in> set (scan_logs (db w4))"
    unfolding logs4 closed_def using row by (auto simp: image_iff intro!: bexI [of _ row])
  moreover have "log_id closed = res_scan_id res" "log_status closed = ''completed''"
    "log_total_found closed = res_total_found res"
    using row(2) sid by (simp_all add: closed_def res_def res0_def)
  ultimately have log: "\<exists>log \<in> set (scan_logs (db w5)).
           log_id log = res_scan_id res \<and> log_status log = ''completed''
         \<and> log_total_found log = res_total_found res"
    by (auto simp: w5_def)
  have "record_id ` {p \<in> set (concat (map programs (xs @ ys))). \<not> skipped p}
         \<subseteq> known_ids (db w5)"
    using ids3 ids4 by (simp add: w5_def)
  with run tot err log show ?thesis
    by (intro exI [of _ res] exI [of _ w5]) (simp add: res_def res0_def)
qed

lemma scan_states_programs_total:
  assumes nf: "\<forall>n. \<not> storage_fault env n"
    and all: "\<forall>p \<in> set ps. recordable env (incl) p"
  shows "\<exists>res' w'. scan_states_programs env incl ps res w = ((None, res'), w')
     \<and> res_total_found res' = res_total_found res + length (filter (\<lambda>p. \<not> skipped p) ps)
     \<and> res_errors res' = res_errors res
     \<and> res_scan_id res' = res_scan_id res
     \<and> known_ids (db w') = known_ids (db w) \<union> record_id ` {p \<in> set ps. \<not> skipped p}
     \<and> scan_logs (db w') = scan_logs (db w)"
  using all
proof (induction ps arbitrary: res w)
  case Nil
  show ?case by simp
next
  case (Cons p ps)
  from Cons.prems have rec: "recordable env (incl) p"
    and rest: "\<forall>p \<in> set ps. recordable env (incl) p"
    by simp_all
  from recordable_is_dict [OF rec] obtain d where p: "p = JObj d" by blast
  show ?case
  proof (cases "lacks_id d")
    case True
    from Cons.IH [OF rest, of res w] obtain res' w' where
      ih: "scan_states_programs env incl ps res w = ((None, res'), w')"
        "res_total_found res' = res_total_found res + length (filter (\<lambda>p. \<not> skipped p) ps)"
        "res_errors res' = res_errors res" "res_scan_id res' = res_scan_id res"
        "known_ids (db w') = known_ids (db w) \<union> record_id ` {p \<in> set ps. \<not> skipped p}"
        "scan_logs (db w') = scan_logs (db w)"
      by blast
    have sk: "skipped p" using True p by (simp add: skipped_def)
    have "scan_states_programs env incl (p # ps) res w = ((None, res'), w')"
      using ih(1) True p by (simp add: program_id_empty_iff)
    moreover have "{q \<in> set (p # ps). \<not> skipped q} = {q \<in> set ps. \<not> skipped q}"
      using sk by auto
    ultimately show ?thesis
      using ih(2-6) sk by (intro exI [of _ res'] exI [of _ w']) simp
  next
    case False
    from rec p have rec': "recordable env (incl) (JObj d)" by simp
    from scan_states_record_total [OF nf rec' False, of res w] obtain res1 w1 where
      st: "scan_states_record env incl d (program_id d) res w = (Inr res1, w1)"
        "res_total_found res1 = Suc (res_total_found res)"
        "res_errors res1 = res_errors res" "res_scan_id res1 = res_scan_id res"
        "known_ids (db w1) = insert (program_id d) (known_ids (db w))"
        "scan_logs (db w1) = scan_logs (db w)"
      by blast
    from Cons.IH [OF rest, of res1 w1] obtain res' w' where
      ih: "scan_states_programs env incl ps res1 w1 = ((None, res'), w')"
        "res_total_found res' = res_total_found res1 + length (filter (\<lambda>p. \<not> skipped p) ps)"
        "res_errors res' = res_errors res1" "res_scan_id res' = res_scan_id res1"
        "known_ids (db w') = known_ids (db w1) \<union> record_id ` {p \<in> set ps. \<not> skipped p}"
        "scan_logs (db w') = scan_logs (db w1)"
      by blast
    have sk: "\<not> skipped p" using False p by (simp add: skipped_def)
    have "scan_states_programs env incl (p # ps) res w = ((None, res'), w')"
      using ih(1) st(1) False p by (simp add: program_id_empty_iff)
    moreover have "{q \<in> set (p # ps). \<not> skipped q} = insert p {q \<in> set ps. \<not> skipped q}"
      using sk by auto
    moreover have "record_id p = program_id d"
      using p by (simp add: record_id_def)
    ultimately show ?thesis
      using ih(2-6) st(2-6) sk by (intro exI [of _ res'] exI [of _ w']) simp
  qed
qed


lemma scan_states_state_ok:
  assumes nf: "\<forall>n. \<not> storage_fault env n"
    and fetch: "\<forall>n. get_programs_by_state env n s = Inr ps"
    and all: "\<forall>p \<in> set ps. recordable env (incl) p"
  shows "\<exists>res' w'. scan_states_state env incl s res w = (res', w')
     \<and> res_total_found res' = res_total_found res + length (filter (\<lambda>p. \<not> skipped p) ps)
     \<and> res_errors res' = res_errors res
     \<and> res_scan_id res' = res_scan_id res
     \<and> known_ids (db w') = known_ids (db w) \<union> record_id ` {p \<in> set ps. \<not> skipped p}
     \<and> scan_logs (db w') = scan_logs (db w)"
proof -
  from scan_states_programs_total [OF nf all, of res "w\<lparr>tick := Suc (tick w)\<rparr>"]
  obtain res' w' where
    "scan_states_programs env incl ps res (w\<lparr>tick := Suc (tick w)\<rparr>) = ((None, res'), w')"
    and facts: "res_total_found res' = res_total_found res + length (filter (\<lambda>p. \<not> skipped p) ps)"
      "res_errors res' = res_errors res" "res_scan_id res' = res_scan_id res"
      "known_ids (db w') = known_ids (db (w\<lparr>tick := Suc (tick w)\<rparr>))
          \<union> record_id ` {p \<in> set ps. \<not> skipped p}"
      "scan_logs (db w') = scan_logs (db (w\<lparr>tick := Suc (tick w)\<rparr>))"
    by blast
  then have "scan_states_state env incl s res w = (res', w')"
    using fetch by (simp add: scan_states_state_def fetch_programs_def)
  with facts show ?thesis by (intro exI [of _ res'] exI [of _ w']) simp
qed

lemma scan_states_state_raises:
  assumes "\<forall>n. get_programs_by_state env n b = Inl e"
  shows "scan_states_state env incl b res w =
           (res\<lparr>res_errors := res_errors res @ [b @ '': '' @ exn_str e]\<rparr>,
            w\<lparr>tick := Suc (tick w)\<rparr>)"
  using assms by (simp add: scan_states_state_def fetch_programs_def)


lemma scan_states_loop_append:
  "scan_states_loop env incl cb n idx (xs @ ys) res w =
     (case scan_states_loop env incl cb n idx xs res w of
        (Inr r, w1) \<Rightarrow> scan_states_loop env incl cb n (idx + length xs) ys r w1
      | (Inl e, w1) \<Rightarrow> (Inl e, w1))"
proof (induction xs arbitrary: idx res w)
  case Nil
  show ?case by simp
next
  case (Cons s xs)
  show ?case
  proof (cases "case cb of None \<Rightarrow> None | Some f \<Rightarrow> f (''Scanning '' @ s) idx n")
    case (Some e)
    then show ?thesis by simp
  next
    case None
    obtain r1 w1 where st: "scan_states_state env incl s res w = (r1, w1)"
      by (cases "scan_states_state env incl s res w")
    show ?thesis
      using None st Cons.IH [of "Suc idx" r1 w1] by (simp split: prod.splits sum.splits)
  qed
qed

lemma scan_states_loop_ok:
  assumes nf: "\<forall>n. \<not> storage_fault env n"
    and quiet: "\<forall>f m i k. cb = Some f \<longrightarrow> f m i k = None"
    and fetch: "\<forall>s \<in> set ss. \<forall>n. get_programs_by_state env n s = Inr (programs s)"
    and all: "\<forall>s \<in> set ss. \<forall>p \<in> set (programs s). recordable env incl p"
  shows "\<exists>res' w'. scan_states_loop env incl cb n idx ss res w = (Inr res', w')
     \<and> res_total_found res'
         = res_total_found res + length (filter (\<lambda>p. \<not> skipped p) (concat (map programs ss)))
     \<and> res_errors res' = res_errors res
     \<and> res_scan_id res' = res_scan_id res
     \<and> known_ids (db w')
         = known_ids (db w) \<union> record_id ` {p \<in> set (concat (map programs ss)). \<not> skipped p}
     \<and> scan_logs (db w') = scan_logs (db w)"
  using fetch all
proof (induction ss arbitrary: idx res w)
  case Nil
  show ?case by simp
next
  case (Cons s ss)
  from Cons.prems have f: "\<forall>n. get_programs_by_state env n s = Inr (programs s)"
    and a: "\<forall>p \<in> set (programs s). recordable env incl p"
    and f': "\<forall>s \<in> set ss. \<forall>n. get_programs_by_state env n s = Inr (programs s)"
    and a': "\<forall>s \<in> set ss. \<forall>p \<in> set (programs s). recordable env incl p"
    by simp_all
  have cbq: "(case cb of None \<Rightarrow> None | Some f \<Rightarrow> f (''Scanning '' @ s) idx n) = None"
    using quiet by (cases cb) simp_all
  from scan_states_state_ok [OF nf f a, of res w] obtain res1 w1 where
    st: "scan_states_state env incl s res w = (res1, w1)"
      "res_total_found res1
         = res_total_found res + length (filter (\<lambda>p. \<not> skipped p) (programs s))"
      "res_errors res1 = res_errors res" "res_scan_id res1 = res_scan_id res"
      "known_ids (db w1) = known_ids (db w) \<union> record_id ` {p \<in> set (programs s). \<not> skipped p}"
      "scan_logs (db w1) = scan_logs (db w)"
    by blast
  from Cons.IH [OF f' a', of "Suc idx" res1 w1] obtain res' w' where
    ih: "scan_states_loop env incl cb n (Suc idx) ss res1 w1 = (Inr res', w')"
      "res_total_found res'
         = res_total_found res1 + length (filter (\<lambda>p. \<not> skipped p) (concat (map programs ss)))"
      "res_errors res' = res_errors res1" "res_scan_id res' = res_scan_id res1"
      "known_ids (db w')
         = known_ids (db w1) \<union> record_id ` {p \<in> set (concat (map programs ss)). \<not> skipped p}"
      "scan_logs (db w') = scan_logs (db w1)"
    by blast
  have ids: "known_ids (db w')
         = known_ids (db w)
             \<union> record_id ` {p \<in> set (concat (map programs (s # ss))). \<not> skipped p}"
    unfolding ih(5) st(5) by auto
  have "scan_states_loop env incl cb n idx (s # ss) res w = (Inr res', w')"
    using st(1) ih(1) cbq by simp
  then show ?case
    using ih(2-4,6) st(2-4,6) ids by (intro exI [of _ res'] exI [of _ w']) simp
qed

lemma scan_states_loop_one_failure:
  assumes nf: "\<forall>n. \<not> storage_fault env n"
    and quiet: "\<forall>f m i k. cb = Some f \<longrightarrow> f m i k = None"
    and fails: "\<forall>n. get_programs_by_state env n b = Inl e"
    and fetch: "\<forall>s \<in> set (xs @ ys). \<forall>n. get_programs_by_state env n s = Inr (programs s)"
    and all: "\<forall>s \<in> set (xs @ ys). \<forall>p \<in> set (programs s). recordable env incl p"
  shows "\<exists>res' w'. scan_states_loop env incl cb n idx (xs @ b # ys) res w = (Inr res', w')
     \<and> res_total_found res'
         = res_total_found res
             + length (filter (\<lambda>p. \<not> skipped p) (concat (map programs (xs @ ys))))
     \<and> res_errors res' = res_errors res @ [b @ '': '' @ exn_str e]
     \<and> res_scan_id res' = res_scan_id res
     \<and> known_ids (db w')
         = known_ids (db w)
             \<union> record_id ` {p \<in> set (concat (map programs (xs @ ys))). \<not> skipped p}
     \<and> scan_logs (db w') = scan_logs (db w)"
proof -
  from fetch all have fx: "\<forall>s \<in> set xs. \<forall>n. get_programs_by_state env n s = Inr (programs s)"
    and ax: "\<forall>s \<in> set xs. \<forall>p \<in> set (programs s). recordable env incl p"
    and fy: "\<forall>s \<in> set ys. \<forall>n. get_programs_by_state env n s = Inr (programs s)"
    and ay: "\<forall>s \<in> set ys. \<forall>p \<in> set (programs s). recordable env incl p"
    by auto
  from scan_states_loop_ok [OF nf quiet fx ax, of n idx res w] obtain res1 w1 where
    x: "scan_states_loop env incl cb n idx xs res w = (Inr res1, w1)"
      "res_total_found res1
         = res_total_found res + length (filter (\<lambda>p. \<not> skipped p) (concat (map programs xs)))"
      "res_errors res1 = res_errors res" "res_scan_id res1 = res_scan_id res"
      "known_ids (db w1)
         = known_ids (db w) \<union> record_id ` {p \<in> set (concat (map programs xs)). \<not> skipped p}"
      "scan_logs (db w1) = scan_logs (db w)"
    by blast
  define res2 where "res2 = res1\<lparr>res_errors := res_errors res1 @ [b @ '': '' @ exn_str e]\<rparr>"
  define w2 where "w2 = w1\<lparr>tick := Suc (tick w1)\<rparr>"
  have b: "scan_states_state env incl b res1 w1 = (res2, w2)"
    unfolding res2_def w2_def by (rule scan_states_state_raises [OF fails])
  have cbq: "(case cb of None \<Rightarrow> None
              | Some f \<Rightarrow> f (''Scanning '' @ b) (idx + length xs) n) = None"
    using quiet by (cases cb) simp_all
  from scan_states_loop_ok [OF nf quiet fy ay, of n "Suc (idx + length xs)" res2 w2]
  obtain res' w' where
    y: "scan_states_loop env incl cb n (Suc (idx + length xs)) ys res2 w2 = (Inr res', w')"
      "res_total_found res'
         = res_total_found res2 + length (filter (\<lambda>p. \<not> skipped p) (concat (map programs ys)))"
      "res_errors res' = res_errors res2" "res_scan_id res' = res_scan_id res2"
      "known_ids (db w')
         = known_ids (db w2) \<union> record_id ` {p \<in> set (concat (map programs ys)). \<not> skipped p}"
      "scan_logs (db w') = scan_logs (db w2)"
    by blast
  have run: "scan_states_loop env incl cb n idx (xs @ b # ys) res w = (Inr res', w')"
    using x(1) b y(1) cbq by (simp add: scan_states_loop_append)
  have ids: "known_ids (db w')
         = known_ids (db w)
             \<union> record_id ` {p \<in> set (concat (map programs (xs @ ys))). \<not> skipped p}"
    unfolding y(5) w2_def using x(5) by auto
  show ?thesis
    using run y(2-4,6) x(2-4,6) ids
    by (intro exI [of _ res'] exI [of _ w']) (simp add: res2_def w2_def)
qed

lemma scan_states_one_failure:
  assumes nf: "\<forall>n. \<not> storage_fault env n"
    and quiet: "\<forall>f m i k. cb = Some f \<longrightarrow> f m i k = None"
    and fails: "\<forall>n. get_programs_by_state env n b = Inl e"
    and fetch: "\<forall>s \<in> set (xs @ ys). \<forall>n. get_programs_by_state env n s = Inr (programs s)"
    and all: "\<forall>s \<in> set (xs @ ys). \<forall>p \<in> set (programs s). recordable env incl p"
  shows "\<exists>res w'. scan_states env (xs @ b # ys) incl cb w = (Inr res, w')
     \<and> res_errors res = [b @ '': '' @ exn_str e]
     \<and> res_total_found res
         = length (filter (\<lambda>p. \<not> skipped p) (concat (map programs (xs @ ys))))
     \<and> record_id ` {p \<in> set (concat (map programs (xs @ ys))). \<not> skipped p}
         \<subseteq> known_ids (db w')
     \<and> (\<exists>log \<in> set (scan_logs (db w')).
           log_id log = res_scan_id res \<and> log_status log = ''completed''
         \<and> log_total_found log = res_total_found res)"
proof -
  let ?states = "xs @ b # ys"
  from start_scan_ok [OF nf, of "''manual''" ?states w] obtain scan_id w1 where
    s1: "start_scan env ''manual'' ?states w = (Inr scan_id, w1)"
    and ids1: "known_ids (db w1) = known_ids (db w)"
    and logs1: "map log_id (scan_logs (db w1)) = map log_id (scan_logs (db w)) @ [scan_id]"
    by blast
  define w2 where "w2 = w1\<lparr>tick := Suc (tick w1)\<rparr>"
  define res0 :: "(pydict, pydict) scan_results" where
    "res0 = \<lparr>res_scan_id = scan_id, res_scan_type = None, res_states = ?states,
              res_started_at = datetime_now env (tick w1), res_new_incentives = [],
              res_updated_incentives = [], res_total_found = 0, res_errors = [],
              res_completed_at = None, res_status = None, res_error = None\<rparr>"
  from scan_states_loop_one_failure [OF nf quiet fails fetch all, of "length ?states" 1 res0 w2]
  obtain res1 w3 where
    loop: "scan_states_loop env incl cb (length ?states) 1 ?states res0 w2 = (Inr res1, w3)"
    and tot: "res_total_found res1
         = res_total_found res0
             + length (filter (\<lambda>p. \<not> skipped p) (concat (map programs (xs @ ys))))"
    and err: "res_errors res1 = res_errors res0 @ [b @ '': '' @ exn_str e]"
    and sid: "res_scan_id res1 = res_scan_id res0"
    and ids3: "known_ids (db w3)
         = known_ids (db w2)
             \<union> record_id ` {p \<in> set (concat (map programs (xs @ ys))). \<not> skipped p}"
    and logs3: "scan_logs (db w3) = scan_logs (db w2)"
    by blast
  from end_scan_ok [OF nf, of scan_id "''completed''" "res_total_found res1"
      "length (res_new_incentives res1)" "length (res_updated_incentives res1)" 0 None w3]
  obtain w4 where
    e4: "end_scan env scan_id ''completed'' (res_total_found res1)
           (length (res_new_incentives res1)) (length (res_updated_incentives res1)) 0 None w3
         = (Inr (), w4)"
    and ids4: "known_ids (db w4) = known_ids (db w3)"
    and logs4: "scan_logs (db w4) = map (\<lambda>r. if log_id r = scan_id
                    then r\<lparr>log_status := ''completed'',
                           log_completed_at := Some (datetime_now env (tick w3)),
                           log_total_found := res_total_found res1,
                           log_new_incentives := length (res_new_incentives res1),
                           log_updated_incentives := length (res_updated_incentives res1),
                           log_removed_incentives := 0,
                           log_error_message := None\<rparr>
                    else r) (scan_logs (db w3))"
    by blast
  define res where "res = res1\<lparr>res_completed_at := Some (datetime_now env (tick w4))\<rparr>"
  define w5 where "w5 = w4\<lparr>tick := Suc (tick w4)\<rparr>"
  have run: "scan_states env ?states incl cb w = (Inr res, w5)"
    using s1 loop e4
    by (simp add: scan_states_def bnd_def now_def ret_def res0_def [symmetric]
          w2_def [symmetric] res_def w5_def)
  from logs1 have "scan_id \<in> set (map log_id (scan_logs (db w1)))"
    by simp
  then obtain row where row: "row \<in> set (scan_logs (db w3))" "log_id row = scan_id"
    using logs3 by (auto simp: w2_def)
  define closed where "closed = row\<lparr>log_status := ''completed'',
                           log_completed_at := Some (datetime_now env (tick w3)),
                           log_total_found := res_total_found res1,
                           log_new_incentives := length (res_new_incentives res1),
                           log_updated_incentives := length (res_updated_incentives res1),
                           log_removed_incentives := 0,
                           log_error_message := None\<rparr>"
  have "closed \<in> set (scan_logs (db w4))"
    unfolding logs4 closed_def using row by (auto simp: image_iff intro!: bexI [of _ row])
  moreover have "log_id closed = res_scan_id res" "log_status closed = ''completed''"
    "log_total_found closed = res_total_found res"
    using row(2) sid by (simp_all add: closed_def res_def res0_def)
  ultimately have log: "\<exists>log \<in> set (scan_logs (db w5)).
           log_id log = res_scan_id res \<and> log_status log = ''completed''
         \<and> log_total_found log = res_total_found res"
    by (auto simp: w5_def)
  have "record_id ` {p \<in> set (concat (map programs (xs @ ys))). \<not> skipped p}
         \<subseteq> known_ids (db w5)"
    using ids3 ids4 by (simp add: w5_def)
  with run tot err log show ?thesis
    by (intro exI [of _ res] exI [of _ w5]) (simp add: res_def res0_def)
qed

subsection \<open>Values that are equal as maps\<close>

lemma equal_as_maps_JList:
  "equal_as_maps (JList xs) v \<longleftrightarrow> (\<exists>ys. v = JList ys \<and> list_all2 equal_as_maps xs ys)"
  by (cases v) (simp_all add: list_all2_map1)

lemma equal_as_maps_JObj:
  "equal_as_maps (JObj kvs) v \<longleftrightarrow>
     (\<exists>kvs'. v = JObj kvs' \<and> length kvs = length kvs'
        \<and> (\<forall>(k, a) \<in> set kvs. \<exists>b. map_of kvs' k = Some b \<and> equal_as_maps a b))"
  by (cases v) (auto simp: list_all_iff split: option.splits)

lemma distinct_keys_JObj:
  "distinct_keys (JObj kvs) \<longleftrightarrow>
     distinct (map fst kvs) \<and> (\<forall>(k, a) \<in> set kvs. distinct_keys a)"
  by (auto simp: list_all_iff)

lemma distinct_keys_JList:
  "distinct_keys (JList xs) \<longleftrightarrow> (\<forall>x \<in> set xs. distinct_keys x)"
  by (auto simp: list_all_iff)

declare equal_as_maps.simps(5,6) [simp del]

declare distinct_keys.simps(5,6) [simp del]

lemma same_keys:
  assumes d1: "distinct (map fst kvs)" and d2: "distinct (map fst kvs')"
    and len: "length kvs = length kvs'"
    and sub: "fst ` set kvs \<subseteq> fst ` set kvs'"
  shows "fst ` set kvs = fst ` set kvs'"
proof (rule card_subset_eq [OF _ sub])
  show "finite (fst ` set kvs')" by simp
  have "card (fst ` set kvs) = length kvs"
    using distinct_card [OF d1] by simp
  moreover have "card (fst ` set kvs') = length kvs'"
    using distinct_card [OF d2] by simp
  ultimately show "card (fst ` set kvs) = card (fst ` set kvs')"
    using len by simp
qed

lemma equal_as_maps_dumps:
  "distinct_keys v1 \<Longrightarrow> distinct_keys v2 \<Longrightarrow> equal_as_maps v1 v2
   \<Longrightarrow> json_dumps True v1 = json_dumps True v2"
proof (induction v1 arbitrary: v2)
  case (JList xs)
  from JList.prems(3) obtain ys where v2: "v2 = JList ys"
    and all: "list_all2 equal_as_maps xs ys"
    by (auto simp: equal_as_maps_JList)
  from JList.prems(1) have w1: "\<forall>x \<in> set xs. distinct_keys x"
    by (simp add: distinct_keys_JList)
  from JList.prems(2) v2 have w2: "\<forall>y \<in> set ys. distinct_keys y"
    by (simp add: distinct_keys_JList)
  have "map (json_dumps True) xs = map (json_dumps True) ys"
  proof (rule nth_equalityI)
    show "length (map (json_dumps True) xs) = length (map (json_dumps True) ys)"
      using list_all2_lengthD [OF all] by simp
    fix i
    assume "i < length (map (json_dumps True) xs)"
    then have i: "i < length xs" by simp
    with list_all2_lengthD [OF all] have i': "i < length ys" by simp
    from list_all2_nthD [OF all i] have "equal_as_maps (xs ! i) (ys ! i)" .
    moreover from i w1 have "distinct_keys (xs ! i)" by simp
    moreover from i' w2 have "distinct_keys (ys ! i)" by simp
    moreover from i have "xs ! i \<in> set xs" by simp
    ultimately have "json_dumps True (xs ! i) = json_dumps True (ys ! i)"
      using JList.IH by blast
    with i i' show "map (json_dumps True) xs ! i = map (json_dumps True) ys ! i"
      by simp
  qed
  with v2 show ?case by simp
next
  case (JObj kvs)
  from JObj.prems(3) obtain kvs' where v2: "v2 = JObj kvs'"
    and len: "length kvs = length kvs'"
    and all: "\<forall>(k, a) \<in> set kvs. \<exists>b. map_of kvs' k = Some b \<and> equal_as_maps a b"
    by (auto simp: equal_as_maps_JObj)
  from JObj.prems(1) have d1: "distinct (map fst kvs)"
    and w1: "\<forall>(k, a) \<in> set kvs. distinct_keys a"
    by (simp_all add: distinct_keys_JObj)
  from JObj.prems(2) v2 have d2: "distinct (map fst kvs')"
    and w2: "\<forall>(k, b) \<in> set kvs'. distinct_keys b"
    by (simp_all add: distinct_keys_JObj)
  let ?g = "map_prod id (json_dumps True)"
  have step: "json_dumps True a = json_dumps True b"
    if "(k, a) \<in> set kvs" "(k, b) \<in> set kvs'" for k a b
  proof -
    from all that(1) obtain b' where b': "map_of kvs' k = Some b'" "equal_as_maps a b'"
      by blast
    from d2 that(2) have "map_of kvs' k = Some b" by simp
    with b' have "equal_as_maps a b" by simp
    moreover from w1 that(1) have "distinct_keys a" by blast
    moreover from w2 that(2) have "distinct_keys b" by blast
    moreover from that(1) have "a \<in> Basic_BNFs.snds (k, a)" by simp
    ultimately show ?thesis
      using JObj.IH [OF that(1)] by blast
  qed
  have sub: "fst ` set kvs \<subseteq> fst ` set kvs'"
  proof
    fix k
    assume "k \<in> fst ` set kvs"
    then obtain a where "(k, a) \<in> set kvs" by auto
    with all obtain b where "map_of kvs' k = Some b" by blast
    then have "(k, b) \<in> set kvs'" by (rule map_of_SomeD)
    then show "k \<in> fst ` set kvs'" by force
  qed
  have keys: "fst ` set kvs = fst ` set kvs'"
    by (rule same_keys [OF d1 d2 len sub])
  have "set (map ?g kvs) = set (map ?g kvs')"
  proof (intro equalityI subsetI)
    fix x
    assume "x \<in> set (map ?g kvs)"
    then obtain k a where ka: "(k, a) \<in> set kvs" and x: "x = (k, json_dumps True a)"
      by auto
    from ka keys obtain b where kb: "(k, b) \<in> set kvs'" by force
    from step [OF ka kb] x have "x = ?g (k, b)" by simp
    with kb show "x \<in> set (map ?g kvs')" by (simp only: set_map) (rule imageI)
  next
    fix x
    assume "x \<in> set (map ?g kvs')"
    then obtain k b where kb: "(k, b) \<in> set kvs'" and x: "x = (k, json_dumps True b)"
      by auto
    from kb keys obtain a where ka: "(k, a) \<in> set kvs" by force
    from step [OF ka kb] x have "x = ?g (k, a)" by simp
    with ka show "x \<in> set (map ?g kvs)" by (simp only: set_map) (rule imageI)
  qed
  moreover have "distinct (map fst (map ?g kvs))" using d1 by (simp add: comp_def)
  moreover have "distinct (map fst (map ?g kvs'))" using d2 by (simp add: comp_def)
  ultimately have "sort_key fst (map ?g kvs) = sort_key fst (map ?g kvs')"
    by (intro sort_key_canonical)
  with v2 show ?case by simp
qed simp_all

lemma equal_as_maps_refl: "distinct_keys v \<Longrightarrow> equal_as_maps v v"
proof (induction v)
  case (JList xs)
  then show ?case
    by (auto simp: equal_as_maps_JList distinct_keys_JList list_all2_same)
next
  case (JObj kvs)
  then have d: "distinct (map fst kvs)" and w: "\<forall>(k, a) \<in> set kvs. distinct_keys a"
    by (simp_all add: distinct_keys_JObj)
  have "\<exists>b. map_of kvs k = Some b \<and> equal_as_maps a b" if "(k, a) \<in> set kvs" for k a
  proof -
    from d that have "map_of kvs k = Some a" by simp
    moreover from w that have "distinct_keys a" by blast
    then have "equal_as_maps a a" using JObj.IH [OF that] by simp
    ultimately show ?thesis by blast
  qed
  then show ?case
    by (auto simp: equal_as_maps_JObj)
qed simp_all

lemma equal_as_maps_of_map_of:
  assumes w1: "distinct_keys (JObj d1)" and d2: "distinct (map fst d2)"
    and eq: "map_of d1 = map_of d2"
  shows "equal_as_maps (JObj d1) (JObj d2)"
proof -
  from w1 have d1: "distinct (map fst d1)" and w: "\<forall>(k, a) \<in> set d1. distinct_keys a"
    by (simp_all add: distinct_keys_JObj)
  from d1 d2 eq have s: "set d1 = set d2"
    by (simp add: map_of_inject_set)
  have "length d1 = length d2"
  proof -
    have "length d1 = card (set d1)"
      using d1 by (metis distinct_card distinct_map)
    also have "\<dots> = card (set d2)" by (simp only: s)
    also have "\<dots> = length d2"
      using d2 by (metis distinct_card distinct_map)
    finally show ?thesis .
  qed
  moreover have "\<exists>b. map_of d2 k = Some b \<and> equal_as_maps a b" if "(k, a) \<in> set d1" for k a
  proof -
    from d1 that have "map_of d1 k = Some a" by simp
    with eq have "map_of d2 k = Some a" by simp
    moreover from w that have "equal_as_maps a a" by (blast intro: equal_as_maps_refl)
    ultimately show ?thesis by blast
  qed
  ultimately show ?thesis
    by (auto simp: equal_as_maps_JObj)
qed




text \<open>
  Claim C2, as the code has it. On a database where the id is unseen, with a payload whose
  \<^verbatim>\<open>name\<close>, \<^verbatim>\<open>state\<close> and \<^verbatim>\<open>program_type\<close> SQLite can bind (the name not \<^verbatim>\<open>None\<close>), and
  with no storage failure, two calls of \<^verbatim>\<open>record_incentive\<close> with the same payload return
  \<^verbatim>\<open>(True, False)\<close> and then \<^verbatim>\<open>(False, False)\<close>, and the second call adds no snapshot and
  no change row.
\<close>

theorem record_incentive_twice:
  assumes nf: "\<forall>n. \<not> storage_fault env n"
    and unseen: "select_incentive dsire_id (db w) = None"
    and b2: "bind_param 2 (dict_get_default data ''name'' (JStr ''Unknown'')) = Inr (Some n)"
    and b3: "bind_param 3 (dict_get_default data ''state'' (JStr '''')) = Inr st"
    and b4: "bind_param 4 (dict_get_default data ''program_type'' (JStr '''')) = Inr pt"
  shows "\<exists>w1 w2.
       record_incentive env dsire_id data w = (Inr (True, False), w1)
     \<and> record_incentive env dsire_id data w1 = (Inr (False, False), w2)
     \<and> length (incentive_snapshots (db w1)) = Suc (length (incentive_snapshots (db w)))
     \<and> incentive_snapshots (db w2) = incentive_snapshots (db w1)
     \<and> incentive_changes (db w2) = incentive_changes (db w1)"
proof -
  from record_incentive_succeeds_new [OF nf unseen b2 b3 b4] obtain res1 w1 where
    run1: "record_incentive env dsire_id data w = (Inr res1, w1)" by blast
  from record_incentive_Inr_new [OF run1 unseen] obtain n' st' pt' where
    res1: "res1 = (True, False)"
    and w1: "w1 = w\<lparr>tick := tick w + 5,
              db := (db w)\<lparr>incentives := incentives (db w) @
                 [\<lparr>inc_id = next_id (map inc_id (incentives (db w))), inc_dsire_id = dsire_id,
                   inc_name = n', inc_state = st', inc_program_type = pt',
                   inc_first_seen_at = datetime_now env (tick w),
                   inc_last_seen_at = datetime_now env (tick w),
                   inc_last_updated_at = None, inc_data_hash = compute_hash env data,
                   inc_is_active = True,
                   inc_created_at = current_timestamp env (tick w + 2)\<rparr>],
               incentive_snapshots := incentive_snapshots (db w) @
                 [\<lparr>snap_id = next_id (map snap_id (incentive_snapshots (db w))),
                   snap_incentive_id = next_id (map inc_id (incentives (db w))),
                   snap_data_json = data, snap_data_hash = compute_hash env data,
                   snap_scraped_at = current_timestamp env (tick w + 3)\<rparr>]\<rparr>\<rparr>"
    by blast
  define row where "row = \<lparr>inc_id = next_id (map inc_id (incentives (db w))),
                   inc_dsire_id = dsire_id,
                   inc_name = n', inc_state = st', inc_program_type = pt',
                   inc_first_seen_at = datetime_now env (tick w),
                   inc_last_seen_at = datetime_now env (tick w),
                   inc_last_updated_at = None, inc_data_hash = compute_hash env data,
                   inc_is_active = True,
                   inc_created_at = current_timestamp env (tick w + 2)\<rparr>"
  have sel1: "select_incentive dsire_id (db w1) = Some row"
    using unseen by (simp add: w1 select_incentive_append row_def)
  have hash1: "inc_data_hash row = compute_hash env data"
    by (simp add: row_def)
  from record_incentive_succeeds_existing [OF nf sel1] obtain res2 w2 where
    run2: "record_incentive env dsire_id data w1 = (Inr res2, w2)" by blast
  from record_incentive_Inr_same [OF run2 sel1 hash1] have
    res2: "res2 = (False, False)"
    and w2: "w2 = w1\<lparr>tick := tick w1 + 4,
            db := (db w1)\<lparr>incentives := map (\<lambda>r. if inc_id r = inc_id row
                    then r\<lparr>inc_last_seen_at := datetime_now env (tick w1), inc_is_active := True\<rparr>
                    else r) (incentives (db w1))\<rparr>\<rparr>"
    by blast+
  have "length (incentive_snapshots (db w1)) = Suc (length (incentive_snapshots (db w)))"
    by (simp add: w1)
  moreover have "incentive_snapshots (db w2) = incentive_snapshots (db w1)"
    and "incentive_changes (db w2) = incentive_changes (db w1)"
    by (simp_all add: w2)
  ultimately show ?thesis
    using run1 run2 res1 res2 by blast
qed

theorem record_incentive_twice_witness:
  "\<exists>w1 w2.
       record_incentive quiet_env ''X'' [(''name'', JStr ''Solar Rebate'')] fresh_world
         = (Inr (True, False), w1)
     \<and> record_incentive quiet_env ''X'' [(''name'', JStr ''Solar Rebate'')] w1
         = (Inr (False, False), w2)
     \<and> length (incentive_snapshots (db w1)) = Suc (length (incentive_snapshots (db fresh_world)))
     \<and> incentive_snapshots (db w2) = incentive_snapshots (db w1)
     \<and> incentive_changes (db w2) = incentive_changes (db w1)"
proof (rule record_incentive_twice)
  show "\<forall>n. \<not> storage_fault quiet_env n"
    by (simp add: quiet_env_def example_env_def)
  show "select_incentive ''X'' (db fresh_world) = None"
    by (simp add: fresh_world_def empty_database_def select_incentive_def)
  show "bind_param 2 (dict_get_default [(''name'', JStr ''Solar Rebate'')] ''name'' (JStr ''Unknown''))
          = Inr (Some ''Solar Rebate'')"
    by (simp add: dict_get_default_def)
  show "bind_param 3 (dict_get_default [(''name'', JStr ''Solar Rebate'')] ''state'' (JStr ''''))
          = Inr (Some '''')"
    by (simp add: dict_get_default_def)
  show "bind_param 4 (dict_get_default [(''name'', JStr ''Solar Rebate'')] ''program_type'' (JStr ''''))
          = Inr (Some '''')"
    by (simp add: dict_get_default_def)
qed

theorem record_incentive_null_name_counterexample:
  "select_incentive ''X'' (db fresh_world) = None
   \<and> fst (record_incentive quiet_env ''X'' [(''name'', JNull)] fresh_world)
       = Inl (IntegrityError ''NOT NULL constraint failed: incentives.name'')"
  by code_simp

text \<open>
  Claim C3. A call of \<^verbatim>\<open>record_incentive\<close> is atomic. If it raises, the database is what
  it was before the call. If it returns, the entity row, the snapshot and the change rows
  it wrote are there together: a new entity with its first snapshot; or, for a changed
  payload, the new snapshot, the change rows and the new hash of the entity; or, for an
  unchanged payload, no snapshot and no change row.
\<close>

theorem record_incentive_atomic:
  assumes "record_incentive env dsire_id data w = (r, w')"
  shows "case r of
      Inl e \<Rightarrow> db w' = db w
    | Inr res \<Rightarrow>
        (case select_incentive dsire_id (db w) of
           None \<Rightarrow> res = (True, False)
             \<and> (\<exists>row snap.
                   incentives (db w') = incentives (db w) @ [row]
                 \<and> inc_dsire_id row = dsire_id
                 \<and> inc_data_hash row = compute_hash env data
                 \<and> incentive_snapshots (db w') = incentive_snapshots (db w) @ [snap]
                 \<and> snap_incentive_id snap = inc_id row
                 \<and> snap_data_json snap = data
                 \<and> snap_data_hash snap = compute_hash env data
                 \<and> incentive_changes (db w') = incentive_changes (db w))
         | Some row \<Rightarrow>
             if inc_data_hash row = compute_hash env data
             then res = (False, False)
               \<and> incentive_snapshots (db w') = incentive_snapshots (db w)
               \<and> incentive_changes (db w') = incentive_changes (db w)
               \<and> map inc_data_hash (incentives (db w')) = map inc_data_hash (incentives (db w))
             else res = (False, True)
               \<and> (\<exists>snap rows.
                     incentive_snapshots (db w') = incentive_snapshots (db w) @ [snap]
                   \<and> snap_incentive_id snap = inc_id row
                   \<and> snap_data_json snap = data
                   \<and> snap_data_hash snap = compute_hash env data
                   \<and> incentive_changes (db w') = incentive_changes (db w) @ rows
                   \<and> (\<forall>r \<in> set (incentives (db w')).
                         inc_id r = inc_id row \<longrightarrow> inc_data_hash r = compute_hash env data)))"
proof (cases r)
  case (Inl e)
  with assms have "db w' = db w"
    by (auto simp: record_incentive_def Let_def bnd_Inl_iff dest: get_connection_Inl)
  with Inl show ?thesis by simp
next
  case (Inr res)
  note run = assms [unfolded Inr]
  show ?thesis
  proof (cases "select_incentive dsire_id (db w)")
    case None
    from record_incentive_Inr_new [OF run None] Inr None show ?thesis
      by auto
  next
    case (Some row)
    show ?thesis
    proof (cases "inc_data_hash row = compute_hash env data")
      case True
      from record_incentive_Inr_same [OF run Some True] Inr Some True show ?thesis
        by (auto simp: comp_def)
    next
      case False
      from record_incentive_Inr_updated [OF run Some False] Inr Some False show ?thesis
        by auto
    qed
  qed
qed

theorem record_incentive_atomic_witness:
  "fst (record_incentive (example_env (\<lambda>n. n) (\<lambda>n. n = 10) (\<lambda>s. Inr [])) ''X''
          [(''name'', JStr ''B'')]
          (observe (example_env (\<lambda>n. n) (\<lambda>n. n = 10) (\<lambda>s. Inr []))
             [(''X'', [(''name'', JStr ''A'')])] fresh_world))
     = Inl (OperationalError ''disk I/O error'')
   \<and> db (snd (record_incentive (example_env (\<lambda>n. n) (\<lambda>n. n = 10) (\<lambda>s. Inr [])) ''X''
          [(''name'', JStr ''B'')]
          (observe (example_env (\<lambda>n. n) (\<lambda>n. n = 10) (\<lambda>s. Inr []))
             [(''X'', [(''name'', JStr ''A'')])] fresh_world)))
     = db (observe (example_env (\<lambda>n. n) (\<lambda>n. n = 10) (\<lambda>s. Inr []))
             [(''X'', [(''name'', JStr ''A'')])] fresh_world)"
proof -
  let ?E = "example_env (\<lambda>n. n) (\<lambda>n. n = 10) (\<lambda>s. Inr [])"
  let ?W = "observe ?E [(''X'', [(''name'', JStr ''A'')])] fresh_world"
  have run: "record_incentive ?E ''X'' [(''name'', JStr ''B'')] ?W
               = (Inl (OperationalError ''disk I/O error''), ?W\<lparr>tick := 11\<rparr>)"
    by code_simp
  from record_incentive_atomic [OF run] have "db (?W\<lparr>tick := 11\<rparr>) = db ?W"
    by simp
  with run show ?thesis by simp
qed

text \<open>
  Claim C4, at the input where the code breaks it. Two observations of one id with
  different payloads are recorded within one second of the database clock. The entity
  then holds the hash of the second payload, and both snapshots have the same
  \<^verbatim>\<open>scraped_at\<close>; the snapshot that ordering by \<^verbatim>\<open>scraped_at\<close>, latest first, returns is the
  first one, whose hash is not the entity's. The same happens when the database clock is
  set back between the two calls.
\<close>

theorem latest_snapshot_stale_within_one_second:
  "map inc_data_hash
     (incentives (db (observe one_second_env
        [(''X'', [(''name'', JStr ''A'')]), (''X'', [(''name'', JStr ''B'')])] fresh_world)))
     = [compute_hash one_second_env [(''name'', JStr ''B'')]]
   \<and> map snap_scraped_at
     (incentive_snapshots (db (observe one_second_env
        [(''X'', [(''name'', JStr ''A'')]), (''X'', [(''name'', JStr ''B'')])] fresh_world)))
     = [100, 100]
   \<and> map_option snap_data_hash
     (select_latest_snapshot 1 (db (observe one_second_env
        [(''X'', [(''name'', JStr ''A'')]), (''X'', [(''name'', JStr ''B'')])] fresh_world)))
     = Some (compute_hash one_second_env [(''name'', JStr ''A'')])
   \<and> compute_hash one_second_env [(''name'', JStr ''A'')]
     \<noteq> compute_hash one_second_env [(''name'', JStr ''B'')]
   \<and> map_option snap_data_hash
     (select_latest_snapshot 1 (db (observe (example_env (\<lambda>n. 200 - n) (\<lambda>n. False) (\<lambda>s. Inr []))
        [(''X'', [(''name'', JStr ''A'')]), (''X'', [(''name'', JStr ''B'')])] fresh_world)))
     = Some (compute_hash one_second_env [(''name'', JStr ''A'')])"
  by code_simp

text \<open>
  Claim C5. The hash does not depend on the order of the keys, at any level: two
  dictionaries that are equal as maps, their values compared in the same way down to the
  dictionaries nested in them, have the same \<^verbatim>\<open>_compute_hash\<close>. So, with no storage failure,
  recording the second for an entity whose stored hash is that of the first returns
  \<^verbatim>\<open>(False, False)\<close> and writes no snapshot and no change row.
\<close>

theorem compute_hash_order_independent:
  assumes w1: "distinct_keys (JObj d1)" and w2: "distinct_keys (JObj d2)"
    and eq: "equal_as_maps (JObj d1) (JObj d2)"
  shows "compute_hash env d1 = compute_hash env d2
    \<and> (\<forall>dsire_id w row.
          (\<forall>n. \<not> storage_fault env n)
          \<and> select_incentive dsire_id (db w) = Some row
          \<and> inc_data_hash row = compute_hash env d1
         \<longrightarrow> (\<exists>w'. record_incentive env dsire_id d2 w = (Inr (False, False), w')
                \<and> incentive_snapshots (db w') = incentive_snapshots (db w)
                \<and> incentive_changes (db w') = incentive_changes (db w)))"
proof (intro conjI allI impI)
  show h: "compute_hash env d1 = compute_hash env d2"
    using equal_as_maps_dumps [OF w1 w2 eq]
    by (simp only: compute_hash_def)
  fix dsire_id and w :: world and row :: incentive
  assume a: "(\<forall>n. \<not> storage_fault env n)
          \<and> select_incentive dsire_id (db w) = Some row
          \<and> inc_data_hash row = compute_hash env d1"
  then have nf: "\<forall>n. \<not> storage_fault env n"
    and sel: "select_incentive dsire_id (db w) = Some row"
    and same: "inc_data_hash row = compute_hash env d2"
    using h by simp_all
  from record_incentive_succeeds_existing [OF nf sel] obtain res w' where
    run: "record_incentive env dsire_id d2 w = (Inr res, w')" by blast
  from record_incentive_Inr_same [OF run sel same] run
  show "\<exists>w'. record_incentive env dsire_id d2 w = (Inr (False, False), w')
                \<and> incentive_snapshots (db w') = incentive_snapshots (db w)
                \<and> incentive_changes (db w') = incentive_changes (db w)"
    by auto
qed

theorem compute_hash_order_independent_witness:
  "compute_hash quiet_env
       [(''a'', JInt 1),
        (''b'', JObj [(''x'', JStr ''s''), (''y'', JList [JObj [(''p'', JNull), (''q'', JBool True)]])])]
     = compute_hash quiet_env
         [(''b'', JObj [(''y'', JList [JObj [(''q'', JBool True), (''p'', JNull)]]), (''x'', JStr ''s'')]),
          (''a'', JInt 1)]
   \<and> (\<exists>w'. record_incentive quiet_env ''X''
               [(''b'', JObj [(''y'', JList [JObj [(''q'', JBool True), (''p'', JNull)]]),
                              (''x'', JStr ''s'')]),
                (''a'', JInt 1)]
               (observe quiet_env
                  [(''X'', [(''a'', JInt 1),
                            (''b'', JObj [(''x'', JStr ''s''),
                               (''y'', JList [JObj [(''p'', JNull), (''q'', JBool True)]])])])]
                  fresh_world)
             = (Inr (False, False), w')
          \<and> incentive_snapshots (db w')
              = incentive_snapshots
                  (db (observe quiet_env
                  [(''X'', [(''a'', JInt 1),
                            (''b'', JObj [(''x'', JStr ''s''),
                               (''y'', JList [JObj [(''p'', JNull), (''q'', JBool True)]])])])]
                  fresh_world))
          \<and> incentive_changes (db w')
              = incentive_changes
                  (db (observe quiet_env
                  [(''X'', [(''a'', JInt 1),
                            (''b'', JObj [(''x'', JStr ''s''),
                               (''y'', JList [JObj [(''p'', JNull), (''q'', JBool True)]])])])]
                  fresh_world)))"
proof -
  let ?d1 = "[(''a'', JInt 1),
        (''b'', JObj [(''x'', JStr ''s''), (''y'', JList [JObj [(''p'', JNull), (''q'', JBool True)]])])]"
  let ?d2 = "[(''b'', JObj [(''y'', JList [JObj [(''q'', JBool True), (''p'', JNull)]]), (''x'', JStr ''s'')]),
          (''a'', JInt 1)]"
  let ?W = "observe quiet_env [(''X'', ?d1)] fresh_world"
  let ?row = "the (select_incentive ''X'' (db ?W))"
  have k1: "distinct_keys (JObj ?d1)" and k2: "distinct_keys (JObj ?d2)"
    by code_simp+
  have m: "equal_as_maps (JObj ?d1) (JObj ?d2)"
    by code_simp
  have nf: "\<forall>n. \<not> storage_fault quiet_env n"
    by (simp add: quiet_env_def example_env_def)
  have sel: "select_incentive ''X'' (db ?W) = Some ?row"
    by code_simp
  have stored: "inc_data_hash ?row = compute_hash quiet_env ?d1"
    by code_simp
  have pre: "(\<forall>n. \<not> storage_fault quiet_env n)
          \<and> select_incentive ''X'' (db ?W) = Some ?row
          \<and> inc_data_hash ?row = compute_hash quiet_env ?d1"
    by (intro conjI nf sel stored)
  note T = compute_hash_order_independent [OF k1 k2 m, of quiet_env]
  show ?thesis
    by (rule conjI [OF T [THEN conjunct1] T [THEN conjunct2, rule_format, OF pre]])
qed

text \<open>
  Claim C6. A scan over the states \<open>xs @ b # ys\<close>, where fetching \<open>b\<close> raises and the other
  states' programs can all be recorded (no storage failure, and in \<^verbatim>\<open>scan_states\<close> a
  progress callback that does not raise), runs to completion in both scan paths: the
  result's error list is the one entry that names \<open>b\<close>, every program of the other states
  that has an id is counted and has its row in the tracker afterwards, and the scan log
  is closed as completed.
\<close>

theorem one_failing_state_is_tolerated:
  assumes nf: "\<forall>n. \<not> storage_fault env n"
    and quiet: "\<forall>f m i k. cb = Some f \<longrightarrow> f m i k = None"
    and fails: "\<forall>n. get_programs_by_state env n b = Inl e"
    and fetch: "\<forall>s \<in> set (xs @ ys). \<forall>n. get_programs_by_state env n s = Inr (programs s)"
    and all: "\<forall>s \<in> set (xs @ ys). \<forall>p \<in> set (programs s).
                recordable env (include_details cfg) p"
  shows "(\<exists>res w'. run_scan env cfg (Some (xs @ b # ys)) scan_type w = (Inr res, w')
       \<and> res_errors res = [''Error scanning '' @ b @ '': '' @ exn_str e]
       \<and> res_status res = Some ''completed''
       \<and> res_total_found res
           = length (filter (\<lambda>p. \<not> skipped p) (concat (map programs (xs @ ys))))
       \<and> record_id ` {p \<in> set (concat (map programs (xs @ ys))). \<not> skipped p}
           \<subseteq> known_ids (db w')
       \<and> (\<exists>log \<in> set (scan_logs (db w')).
             log_id log = res_scan_id res \<and> log_status log = ''completed''
           \<and> log_total_found log = res_total_found res))
    \<and> (\<exists>res w'. scan_states env (xs @ b # ys) (include_details cfg) cb w = (Inr res, w')
       \<and> res_errors res = [b @ '': '' @ exn_str e]
       \<and> res_total_found res
           = length (filter (\<lambda>p. \<not> skipped p) (concat (map programs (xs @ ys))))
       \<and> record_id ` {p \<in> set (concat (map programs (xs @ ys))). \<not> skipped p}
           \<subseteq> known_ids (db w')
       \<and> (\<exists>log \<in> set (scan_logs (db w')).
             log_id log = res_scan_id res \<and> log_status log = ''completed''
           \<and> log_total_found log = res_total_found res))"
  by (rule conjI [OF run_scan_one_failure [OF nf fails fetch all]
                     scan_states_one_failure [OF nf quiet fails fetch all]])

theorem one_failing_state_is_tolerated_witness:
  "(\<exists>res w'. run_scan three_states_env plain_config (Some ([''A''] @ ''B'' # [''C'']))
                 ''manual'' fresh_world = (Inr res, w')
       \<and> res_errors res = [''Error scanning '' @ ''B'' @ '': '' @ ''boom'']
       \<and> res_status res = Some ''completed''
       \<and> res_total_found res = 2)
   \<and> (\<exists>res w'. scan_states three_states_env ([''A''] @ ''B'' # [''C'']) False None fresh_world
                   = (Inr res, w')
       \<and> res_errors res = [''B'' @ '': '' @ ''boom'']
       \<and> res_total_found res = 2)"
proof -
  let ?progs = "\<lambda>s. case three_states s of Inr ps \<Rightarrow> ps | Inl e \<Rightarrow> []"
  have nf: "\<forall>n. \<not> storage_fault three_states_env n"
    by (simp add: three_states_env_def example_env_def)
  have quiet: "\<forall>f m i k. (None :: progress_callback option) = Some f \<longrightarrow> f m i k = None"
    by simp
  have fails: "\<forall>n. get_programs_by_state three_states_env n ''B'' = Inl (OtherError ''boom'')"
    by (simp add: three_states_env_def example_env_def three_states_def)
  have fetch: "\<forall>s \<in> set ([''A''] @ [''C'']). \<forall>n.
                 get_programs_by_state three_states_env n s = Inr (?progs s)"
    by (simp add: three_states_env_def example_env_def three_states_def)
  have inc: "include_details plain_config = False"
    by (simp add: plain_config_def)
  have "insertable [(''id'', JInt 1), (''name'', JStr ''a'')]"
    and "insertable [(''id'', JInt 2), (''name'', JStr ''c'')]"
    by code_simp+
  then have r1: "recordable three_states_env False
                   (JObj [(''id'', JInt 1), (''name'', JStr ''a'')])"
    and r2: "recordable three_states_env False
               (JObj [(''id'', JInt 2), (''name'', JStr ''c'')])"
    by (simp_all add: recordable_def)
  have all: "\<forall>s \<in> set ([''A''] @ [''C'']). \<forall>p \<in> set (?progs s).
                recordable three_states_env (include_details plain_config) p"
    using r1 r2 by (simp add: inc three_states_def)
  have cnt: "length (filter (\<lambda>p. \<not> skipped p) (concat (map ?progs ([''A''] @ [''C''])))) = 2"
    by code_simp
  have str: "exn_str (OtherError ''boom'') = ''boom''"
    by simp
  note T = one_failing_state_is_tolerated [OF nf quiet fails fetch all,
      of "''manual''" fresh_world, unfolded inc cnt str]
  from T [THEN conjunct1] obtain res w' where
    a: "run_scan three_states_env plain_config (Some ([''A''] @ ''B'' # [''C'']))
          ''manual'' fresh_world = (Inr res, w')"
    and b: "res_errors res = [''Error scanning '' @ ''B'' @ '': '' @ ''boom'']"
    and c: "res_status res = Some ''completed''"
    and d: "res_total_found res = 2"
    by (elim exE conjE) (rule that)
  from T [THEN conjunct2] obtain res2 w2 where
    a2: "scan_states three_states_env ([''A''] @ ''B'' # [''C'']) False None fresh_world
           = (Inr res2, w2)"
    and b2: "res_errors res2 = [''B'' @ '': '' @ ''boom'']"
    and d2: "res_total_found res2 = 2"
    by (elim exE conjE) (rule that)
  show ?thesis
    by (rule conjI, rule exI [of _ res], rule exI [of _ w'], intro conjI a b c d,
        rule exI [of _ res2], rule exI [of _ w2], intro conjI a2 b2 d2)
qed

text \<open>
  Claim C7, at the input where the code breaks it. When the progress callback of
  \<^verbatim>\<open>ScanRunner.scan_states\<close> raises, or \<^verbatim>\<open>end_scan\<close> fails at its \<^verbatim>\<open>UPDATE\<close>, the exception
  leaves \<^verbatim>\<open>scan_states\<close> and the scan log stays \<^verbatim>\<open>running\<close>: nothing closes it as
  \<^verbatim>\<open>failed\<close>. \<^verbatim>\<open>DailyScheduler.run_scan\<close>, at the same storage failure, closes its scan log
  as \<^verbatim>\<open>failed\<close> with the message.
\<close>

theorem scan_states_leaves_scan_running:
  "fst (scan_states quiet_env [''NY''] False
          (Some (\<lambda>msg idx n. Some (OtherError ''Broken pipe''))) fresh_world)
     = Inl (OtherError ''Broken pipe'')
   \<and> map log_status (scan_logs (db (snd (scan_states quiet_env [''NY''] False
          (Some (\<lambda>msg idx n. Some (OtherError ''Broken pipe''))) fresh_world))))
     = [''running'']
   \<and> fst (scan_states (example_env (\<lambda>n. n) (\<lambda>n. n = 6) (\<lambda>s. Inr [])) [''NY''] False None
          fresh_world)
     = Inl (OperationalError ''disk I/O error'')
   \<and> map log_status (scan_logs (db (snd (scan_states
          (example_env (\<lambda>n. n) (\<lambda>n. n = 6) (\<lambda>s. Inr [])) [''NY''] False None fresh_world))))
     = [''running'']
   \<and> map_sum id res_status (fst (run_scan (example_env (\<lambda>n. n) (\<lambda>n. n = 6) (\<lambda>s. Inr []))
          plain_config (Some [''NY'']) ''manual'' fresh_world))
     = Inr (Some ''failed'')
   \<and> map (\<lambda>r. (log_status r, log_error_message r))
         (scan_logs (db (snd (run_scan (example_env (\<lambda>n. n) (\<lambda>n. n = 6) (\<lambda>s. Inr []))
            plain_config (Some [''NY'']) ''manual'' fresh_world))))
     = [(''failed'', Some ''disk I/O error'')]"
  by code_simp

section \<open>Scope selection: the priority states are always scanned\<close>

lemma add_group_states_keeps: "set states \<subseteq> set (add_group_states g states)"
proof (induction g arbitrary: states)
  case Nil
  show ?case by simp
next
  case (Cons s g)
  have "set states \<subseteq> set (if s \<notin> set states then states @ [s] else states)"
    by auto
  also have "\<dots> \<subseteq> set (add_group_states g (if s \<notin> set states then states @ [s] else states))"
    by (rule Cons.IH)
  finally show ?case by simp
qed

lemma priority_in_universe: "set PRIORITY_STATES \<subseteq> set US_STATES"
  by (simp add: PRIORITY_STATES_def US_STATES_def)

text \<open>
  Claim C8. Whatever the weekday and the configuration, the list that
  \<^verbatim>\<open>_get_states_for_today\<close> returns holds every priority state; on Sunday (weekday 6), or
  when \<^verbatim>\<open>scan_all_states\<close> is set, it is exactly the client's \<^verbatim>\<open>US_STATES\<close>.
\<close>

theorem states_for_today_superset_of_priority:
  "set PRIORITY_STATES \<subseteq> set (get_states_for_today day_of_week scan_all)
   \<and> ((day_of_week = 6 \<or> scan_all) \<longrightarrow>
        get_states_for_today day_of_week scan_all = US_STATES)"
proof
  show "set PRIORITY_STATES \<subseteq> set (get_states_for_today day_of_week scan_all)"
  proof (cases "day_of_week = 6 \<or> scan_all")
    case True
    then show ?thesis
      using priority_in_universe by (simp add: get_states_for_today_def)
  next
    case False
    then show ?thesis
      using add_group_states_keeps [of PRIORITY_STATES]
      by (simp add: get_states_for_today_def Let_def)
  qed
next
  show "(day_of_week = 6 \<or> scan_all) \<longrightarrow>
        get_states_for_today day_of_week scan_all = US_STATES"
    by (simp add: get_states_for_today_def)
qed

theorem states_for_today_superset_of_priority_witness:
  "set PRIORITY_STATES \<subseteq> set (get_states_for_today 2 False)
   \<and> ((6::nat) = 6 \<or> False)
   \<and> get_states_for_today 6 False = US_STATES"
proof -
  have a: "set PRIORITY_STATES \<subseteq> set (get_states_for_today 2 False)"
    using states_for_today_superset_of_priority [of 2 False] by blast
  have b: "get_states_for_today 6 False = US_STATES"
    using states_for_today_superset_of_priority [of 6 False] by blast
  from a b show ?thesis by simp
qed

lemma scraped_at_untracked: "''scraped_at'' \<notin> set tracked_fields"
  by code_simp

text \<open>
  The hash covers the whole payload, the \<^verbatim>\<open>scraped_at\<close> stamp included: two payloads that
  differ only in the string under \<^verbatim>\<open>scraped_at\<close> have different sorted serialisations,
  hence different hashes unless MD5 collides on these two strings. When the
  latest-snapshot query returns the snapshot of the first payload, and with no storage
  failure, recording the second returns \<^verbatim>\<open>(False, True)\<close>, writes a new snapshot and
  writes no change row, \<^verbatim>\<open>scraped_at\<close> being no tracked field.
\<close>

lemma scraped_at_alone_is_an_update:
  assumes k1: "distinct (map fst d1)" and k2: "distinct (map fst d2)"
    and s1: "map_of d1 ''scraped_at'' = Some (JStr t1)"
    and s2: "map_of d2 ''scraped_at'' = Some (JStr t2)"
    and t: "t1 \<noteq> t2"
    and rest: "\<forall>k. k \<noteq> ''scraped_at'' \<longrightarrow> map_of d1 k = map_of d2 k"
    and md5: "inj_on (md5_hexdigest env) {json_dumps True (JObj d1), json_dumps True (JObj d2)}"
  shows "compute_hash env d1 \<noteq> compute_hash env d2
    \<and> (\<forall>dsire_id w row snap.
          (\<forall>n. \<not> storage_fault env n)
          \<and> select_incentive dsire_id (db w) = Some row
          \<and> inc_data_hash row = compute_hash env d1
          \<and> select_latest_snapshot (inc_id row) (db w) = Some snap
          \<and> snap_data_json snap = d1
         \<longrightarrow> (\<exists>w' new_snap.
                  record_incentive env dsire_id d2 w = (Inr (False, True), w')
                \<and> incentive_snapshots (db w') = incentive_snapshots (db w) @ [new_snap]
                \<and> snap_data_json new_snap = d2
                \<and> snap_data_hash new_snap = compute_hash env d2
                \<and> incentive_changes (db w') = incentive_changes (db w)))"
proof (intro conjI allI impI)
  have "json_dumps True (JObj d1) \<noteq> json_dumps True (JObj d2)"
    by (rule json_dumps_scraped_at_differs [OF k1 k2 s1 s2 t rest])
  with md5 show h: "compute_hash env d1 \<noteq> compute_hash env d2"
    by (auto simp: compute_hash_def inj_on_def)
  fix dsire_id and w :: world and row :: incentive and snap :: snapshot
  assume a: "(\<forall>n. \<not> storage_fault env n)
          \<and> select_incentive dsire_id (db w) = Some row
          \<and> inc_data_hash row = compute_hash env d1
          \<and> select_latest_snapshot (inc_id row) (db w) = Some snap
          \<and> snap_data_json snap = d1"
  then have nf: "\<forall>n. \<not> storage_fault env n"
    and sel: "select_incentive dsire_id (db w) = Some row"
    and neq: "inc_data_hash row \<noteq> compute_hash env d2"
    and old: "select_latest_snapshot (inc_id row) (db w) = Some snap"
    and payload: "snap_data_json snap = d1"
    using h by simp_all
  have same: "field_value d1 f = field_value d2 f" if "f \<in> set tracked_fields" for f
  proof -
    from that scraped_at_untracked have "f \<noteq> ''scraped_at''" by auto
    with rest have "map_of d1 f = map_of d2 f" by simp
    then show ?thesis
      by (simp add: field_value_def dict_get_def dict_get_default_def split: option.splits)
  qed
  then have none: "filter (\<lambda>f. field_value d1 f \<noteq> field_value d2 f) tracked_fields = []"
    by (simp add: filter_empty_conv)
  from record_incentive_succeeds_existing [OF nf sel] obtain res w' where
    run: "record_incentive env dsire_id d2 w = (Inr res, w')" by blast
  from record_incentive_Inr_updated [OF run sel neq] old payload none
  show "\<exists>w' new_snap.
                  record_incentive env dsire_id d2 w = (Inr (False, True), w')
                \<and> incentive_snapshots (db w') = incentive_snapshots (db w) @ [new_snap]
                \<and> snap_data_json new_snap = d2
                \<and> snap_data_hash new_snap = compute_hash env d2
                \<and> incentive_changes (db w') = incentive_changes (db w)"
    using run by auto
qed

lemma scraped_at_alone_is_an_update_example:
  "compute_hash quiet_env [(''name'', JStr ''Solar''), (''scraped_at'', JStr ''T1'')]
     \<noteq> compute_hash quiet_env [(''name'', JStr ''Solar''), (''scraped_at'', JStr ''T2'')]
   \<and> (\<exists>w' new_snap.
          record_incentive quiet_env ''7''
              [(''name'', JStr ''Solar''), (''scraped_at'', JStr ''T2'')]
              (observe quiet_env
                 [(''7'', [(''name'', JStr ''Solar''), (''scraped_at'', JStr ''T1'')])]
                 fresh_world)
            = (Inr (False, True), w')
        \<and> incentive_snapshots (db w')
            = incentive_snapshots
                (db (observe quiet_env
                       [(''7'', [(''name'', JStr ''Solar''), (''scraped_at'', JStr ''T1'')])]
                       fresh_world)) @ [new_snap]
        \<and> snap_data_json new_snap = [(''name'', JStr ''Solar''), (''scraped_at'', JStr ''T2'')]
        \<and> snap_data_hash new_snap
            = compute_hash quiet_env [(''name'', JStr ''Solar''), (''scraped_at'', JStr ''T2'')]
        \<and> incentive_changes (db w')
            = incentive_changes
                (db (observe quiet_env
                       [(''7'', [(''name'', JStr ''Solar''), (''scraped_at'', JStr ''T1'')])]
                       fresh_world)))"
proof -
  let ?d1 = "[(''name'', JStr ''Solar''), (''scraped_at'', JStr ''T1'')]"
  let ?d2 = "[(''name'', JStr ''Solar''), (''scraped_at'', JStr ''T2'')]"
  let ?W = "observe quiet_env [(''7'', ?d1)] fresh_world"
  have k1: "distinct (map fst ?d1)" and k2: "distinct (map fst ?d2)"
    by simp_all
  have s1: "map_of ?d1 ''scraped_at'' = Some (JStr ''T1'')"
    and s2: "map_of ?d2 ''scraped_at'' = Some (JStr ''T2'')"
    by simp_all
  have t: "''T1'' \<noteq> ''T2''" by simp
  have rest: "\<forall>k. k \<noteq> ''scraped_at'' \<longrightarrow> map_of ?d1 k = map_of ?d2 k"
    by simp
  have md5: "inj_on (md5_hexdigest quiet_env)
               {json_dumps True (JObj ?d1), json_dumps True (JObj ?d2)}"
    by (simp add: quiet_env_def example_env_def inj_on_def)
  have nf: "\<forall>n. \<not> storage_fault quiet_env n"
    by (simp add: quiet_env_def example_env_def)
  have "map_option (\<lambda>r. (inc_id r, inc_data_hash r)) (select_incentive ''7'' (db ?W))
          = Some (1, compute_hash quiet_env ?d1)"
    by code_simp
  then obtain row where sel: "select_incentive ''7'' (db ?W) = Some row"
    and rid: "inc_id row = 1" and stored: "inc_data_hash row = compute_hash quiet_env ?d1"
    by auto
  have "map_option snap_data_json (select_latest_snapshot 1 (db ?W)) = Some ?d1"
    by code_simp
  then obtain snap where old: "select_latest_snapshot (inc_id row) (db ?W) = Some snap"
    and payload: "snap_data_json snap = ?d1"
    unfolding rid by auto
  have pre: "(\<forall>n. \<not> storage_fault quiet_env n)
          \<and> select_incentive ''7'' (db ?W) = Some row
          \<and> inc_data_hash row = compute_hash quiet_env ?d1
          \<and> select_latest_snapshot (inc_id row) (db ?W) = Some snap
          \<and> snap_data_json snap = ?d1"
    by (intro conjI nf sel stored old payload)
  note T = scraped_at_alone_is_an_update [OF k1 k2 s1 s2 t rest md5]
  show ?thesis
    by (rule conjI [OF T [THEN conjunct1] T [THEN conjunct2, rule_format, OF pre]])
qed

text \<open>
  Claim C9, at the input where the code breaks it. Three observations of one id are
  recorded within one second of the database clock: the first with the name \<^verbatim>\<open>A\<close>, the
  second and the third with the name \<^verbatim>\<open>B\<close>, so that the third differs from the second
  only in \<^verbatim>\<open>scraped_at\<close>. The third call returns \<^verbatim>\<open>(False, True)\<close> and writes a snapshot,
  but it also writes a change row: the latest-snapshot query returns the snapshot of the
  first observation, and the payload is compared with that one, so the change of the name
  from \<^verbatim>\<open>A\<close> to \<^verbatim>\<open>B\<close> is recorded a second time.
\<close>

theorem scraped_at_update_repeats_change_row:
  "fst (record_incentive one_second_env ''X''
          [(''name'', JStr ''B''), (''scraped_at'', JStr ''T2'')]
          (observe one_second_env
             [(''X'', [(''name'', JStr ''A''), (''scraped_at'', JStr ''T0'')]),
              (''X'', [(''name'', JStr ''B''), (''scraped_at'', JStr ''T1'')])] fresh_world))
     = Inr (False, True)
   \<and> map (\<lambda>c. (chg_field_name c, chg_old_value c, chg_new_value c))
         (incentive_changes (db (observe one_second_env
             [(''X'', [(''name'', JStr ''A''), (''scraped_at'', JStr ''T0'')]),
              (''X'', [(''name'', JStr ''B''), (''scraped_at'', JStr ''T1'')])] fresh_world)))
     = [(''name'', Some ''A'', Some ''B'')]
   \<and> map (\<lambda>c. (chg_field_name c, chg_old_value c, chg_new_value c))
         (incentive_changes (db (snd (record_incentive one_second_env ''X''
          [(''name'', JStr ''B''), (''scraped_at'', JStr ''T2'')]
          (observe one_second_env
             [(''X'', [(''name'', JStr ''A''), (''scraped_at'', JStr ''T0'')]),
              (''X'', [(''name'', JStr ''B''), (''scraped_at'', JStr ''T1'')])] fresh_world)))))
     = [(''name'', Some ''A'', Some ''B''), (''name'', Some ''A'', Some ''B'')]
   \<and> map snap_data_json
         (incentive_snapshots (db (snd (record_incentive one_second_env ''X''
          [(''name'', JStr ''B''), (''scraped_at'', JStr ''T2'')]
          (observe one_second_env
             [(''X'', [(''name'', JStr ''A''), (''scraped_at'', JStr ''T0'')]),
              (''X'', [(''name'', JStr ''B''), (''scraped_at'', JStr ''T1'')])] fresh_world)))))
     = [[(''name'', JStr ''A''), (''scraped_at'', JStr ''T0'')],
        [(''name'', JStr ''B''), (''scraped_at'', JStr ''T1'')],
        [(''name'', JStr ''B''), (''scraped_at'', JStr ''T2'')]]"
  by code_simp

text \<open>
  Claim C10. In both scan paths a fetched record whose \<^verbatim>\<open>id\<close> is absent or the empty
  string is skipped, and the other records are still processed. The loop over the
  programs of a state does exactly what it does on the list without these records, so
  \<^verbatim>\<open>record_incentive\<close> is not called for them, they are not counted and appear in no
  result list. With no storage failure and records that the tracker accepts, the loop
  ends without an exception, \<^verbatim>\<open>total_found\<close> has grown by the number of records that
  have an id, and the tracker has a row for the id of each of them, and for no other new
  id. The test of the code, that \<^verbatim>\<open>str(program.get('id', ''))\<close> is empty, holds for
  exactly the records without an id.
\<close>

theorem records_without_id_are_skipped:
  "run_scan_programs env cfg state programs res w
     = run_scan_programs env cfg state (filter (\<lambda>p. \<not> skipped p) programs) res w
   \<and> scan_states_programs env incl programs res' w
     = scan_states_programs env incl (filter (\<lambda>p. \<not> skipped p) programs) res' w
   \<and> ((\<forall>n. \<not> storage_fault env n)
        \<and> (\<forall>p \<in> set programs. recordable env (include_details cfg) p)
      \<longrightarrow> (\<exists>res1 w1. run_scan_programs env cfg state programs res w = ((None, res1), w1)
            \<and> res_total_found res1
                = res_total_found res + length (filter (\<lambda>p. \<not> skipped p) programs)
            \<and> known_ids (db w1)
                = known_ids (db w) \<union> record_id ` {p \<in> set programs. \<not> skipped p}))
   \<and> ((\<forall>n. \<not> storage_fault env n)
        \<and> (\<forall>p \<in> set programs. recordable env incl p)
      \<longrightarrow> (\<exists>res1 w1. scan_states_programs env incl programs res' w = ((None, res1), w1)
            \<and> res_total_found res1
                = res_total_found res' + length (filter (\<lambda>p. \<not> skipped p) programs)
            \<and> known_ids (db w1)
                = known_ids (db w) \<union> record_id ` {p \<in> set programs. \<not> skipped p}))
   \<and> (program_id d = [] \<longleftrightarrow> lacks_id d)"
proof (intro conjI impI)
  show "program_id d = [] \<longleftrightarrow> lacks_id d"
    by (rule program_id_empty_iff)
next
  assume a: "(\<forall>n. \<not> storage_fault env n)
        \<and> (\<forall>p \<in> set programs. recordable env (include_details cfg) p)"
  then have nf: "\<forall>n. \<not> storage_fault env n"
    and all: "\<forall>p \<in> set programs. recordable env (include_details cfg) p"
    by simp_all
  from run_scan_programs_total [OF nf all, of state res w]
  show "\<exists>res1 w1. run_scan_programs env cfg state programs res w = ((None, res1), w1)
            \<and> res_total_found res1
                = res_total_found res + length (filter (\<lambda>p. \<not> skipped p) programs)
            \<and> known_ids (db w1)
                = known_ids (db w) \<union> record_id ` {p \<in> set programs. \<not> skipped p}"
    by blast
next
  assume a: "(\<forall>n. \<not> storage_fault env n)
        \<and> (\<forall>p \<in> set programs. recordable env incl p)"
  then have nf: "\<forall>n. \<not> storage_fault env n"
    and all: "\<forall>p \<in> set programs. recordable env incl p"
    by simp_all
  from scan_states_programs_total [OF nf all, of res' w]
  show "\<exists>res1 w1. scan_states_programs env incl programs res' w = ((None, res1), w1)
            \<and> res_total_found res1
                = res_total_found res' + length (filter (\<lambda>p. \<not> skipped p) programs)
            \<and> known_ids (db w1)
                = known_ids (db w) \<union> record_id ` {p \<in> set programs. \<not> skipped p}"
    by blast
next
  show "run_scan_programs env cfg state programs res w
     = run_scan_programs env cfg state (filter (\<lambda>p. \<not> skipped p) programs) res w"
  proof (induction programs arbitrary: res w)
    case Nil
    show ?case by simp
  next
    case (Cons p rest)
    show ?case
    proof (cases p)
      case (JObj d)
      show ?thesis
      proof (cases "lacks_id d")
        case True
        with JObj Cons.IH show ?thesis
          by (simp add: skipped_def program_id_empty_iff)
      next
        case False
        with JObj Cons.IH show ?thesis
          by (simp add: skipped_def program_id_empty_iff split: prod.splits sum.splits)
      qed
    qed (simp_all add: skipped_def)
  qed
next
  show "scan_states_programs env incl programs res' w
     = scan_states_programs env incl (filter (\<lambda>p. \<not> skipped p) programs) res' w"
  proof (induction programs arbitrary: res' w)
    case Nil
    show ?case by simp
  next
    case (Cons p rest)
    show ?case
    proof (cases p)
      case (JObj d)
      show ?thesis
      proof (cases "lacks_id d")
        case True
        with JObj Cons.IH show ?thesis
          by (simp add: skipped_def program_id_empty_iff)
      next
        case False
        with JObj Cons.IH show ?thesis
          by (simp add: skipped_def program_id_empty_iff split: prod.splits sum.splits)
      qed
    qed (simp_all add: skipped_def)
  qed
qed

theorem records_without_id_are_skipped_witness:
  "run_scan_programs quiet_env plain_config ''NY''
      [JObj [(''name'', JStr ''A'')], JObj [(''id'', JStr ''''), (''name'', JStr ''B'')],
       JObj [(''id'', JInt 5), (''name'', JStr ''C'')]]
      (initial_results 1 [''NY'']) fresh_world
     = run_scan_programs quiet_env plain_config ''NY''
         [JObj [(''id'', JInt 5), (''name'', JStr ''C'')]]
         (initial_results 1 [''NY'']) fresh_world
   \<and> scan_states_programs quiet_env False
      [JObj [(''name'', JStr ''A'')], JObj [(''id'', JStr ''''), (''name'', JStr ''B'')],
       JObj [(''id'', JInt 5), (''name'', JStr ''C'')]]
      (initial_results 1 [''NY'']) fresh_world
     = scan_states_programs quiet_env False
         [JObj [(''id'', JInt 5), (''name'', JStr ''C'')]]
         (initial_results 1 [''NY'']) fresh_world
   \<and> (\<exists>res1 w1. run_scan_programs quiet_env plain_config ''NY''
          [JObj [(''name'', JStr ''A'')], JObj [(''id'', JStr ''''), (''name'', JStr ''B'')],
           JObj [(''id'', JInt 5), (''name'', JStr ''C'')]]
          (initial_results 1 [''NY'']) fresh_world = ((None, res1), w1)
        \<and> res_total_found res1 = 1 \<and> known_ids (db w1) = {''5''})
   \<and> (\<exists>res1 w1. scan_states_programs quiet_env False
          [JObj [(''name'', JStr ''A'')], JObj [(''id'', JStr ''''), (''name'', JStr ''B'')],
           JObj [(''id'', JInt 5), (''name'', JStr ''C'')]]
          (initial_results 1 [''NY'']) fresh_world = ((None, res1), w1)
        \<and> res_total_found res1 = 1 \<and> known_ids (db w1) = {''5''})"
proof -
  let ?A = "JObj [(''name'', JStr ''A'')]"
  let ?B = "JObj [(''id'', JStr ''''), (''name'', JStr ''B'')]"
  let ?C = "JObj [(''id'', JInt 5), (''name'', JStr ''C'')]"
  let ?P = "[?A, ?B, ?C]"
  let ?R = "initial_results 1 [''NY''] :: (new_entry, updated_entry) scan_results"
  let ?R' = "initial_results 1 [''NY''] :: (pydict, pydict) scan_results"
  have f: "filter (\<lambda>p. \<not> skipped p) ?P = [?C]"
    by code_simp
  have sk: "skipped ?A" "skipped ?B" "\<not> skipped ?C"
    by code_simp+
  have kept: "{p \<in> set ?P. \<not> skipped p} = {?C}"
    using sk by auto
  have rid: "record_id ?C = ''5''"
    by code_simp
  have nf: "\<forall>n. \<not> storage_fault quiet_env n"
    by (simp add: quiet_env_def example_env_def)
  have incl: "include_details plain_config = False"
    by (simp add: plain_config_def)
  have ins: "insertable [(''id'', JInt 5), (''name'', JStr ''C'')]"
    by code_simp
  have la: "lacks_id [(''name'', JStr ''A'')]"
    "lacks_id [(''id'', JStr ''''), (''name'', JStr ''B'')]"
    by code_simp+
  have rec: "\<forall>p \<in> set ?P. recordable quiet_env False p"
    using ins la by (simp add: recordable_def)
  have k0: "known_ids (db fresh_world) = {}"
    by (simp add: known_ids_def fresh_world_def empty_database_def)
  have t0: "res_total_found ?R = 0" "res_total_found ?R' = 0"
    by (simp_all add: initial_results_def)
  note T = records_without_id_are_skipped [of quiet_env plain_config "''NY''" ?P
      ?R fresh_world False ?R']
  have e1: "run_scan_programs quiet_env plain_config ''NY'' ?P ?R fresh_world
     = run_scan_programs quiet_env plain_config ''NY'' [?C] ?R fresh_world"
    using T [THEN conjunct1] by (simp only: f)
  have e2: "scan_states_programs quiet_env False ?P ?R' fresh_world
     = scan_states_programs quiet_env False [?C] ?R' fresh_world"
    using T [THEN conjunct2, THEN conjunct1] by (simp only: f)
  have n1: "length (filter (\<lambda>p. \<not> skipped p) ?P) = 1"
    by (simp only: f) simp
  have ids: "known_ids (db fresh_world) \<union> record_id ` {p \<in> set ?P. \<not> skipped p} = {''5''}"
    by (simp only: kept k0 image_insert image_empty rid Un_empty_left)
  from T [THEN conjunct2, THEN conjunct2, THEN conjunct1] nf rec
  have "\<exists>res1 w1. run_scan_programs quiet_env plain_config ''NY'' ?P ?R fresh_world
          = ((None, res1), w1)
        \<and> res_total_found res1 = res_total_found ?R + length (filter (\<lambda>p. \<not> skipped p) ?P)
        \<and> known_ids (db w1)
            = known_ids (db fresh_world) \<union> record_id ` {p \<in> set ?P. \<not> skipped p}"
    by (simp only: incl simp_thms)
  then have p1: "\<exists>res1 w1. run_scan_programs quiet_env plain_config ''NY'' ?P ?R fresh_world
          = ((None, res1), w1)
        \<and> res_total_found res1 = 1 \<and> known_ids (db w1) = {''5''}"
    by (simp only: n1 ids t0 add_0)
  from T [THEN conjunct2, THEN conjunct2, THEN conjunct2, THEN conjunct1] nf rec
  have "\<exists>res1 w1. scan_states_programs quiet_env False ?P ?R' fresh_world
          = ((None, res1), w1)
        \<and> res_total_found res1 = res_total_found ?R' + length (filter (\<lambda>p. \<not> skipped p) ?P)
        \<and> known_ids (db w1)
            = known_ids (db fresh_world) \<union> record_id ` {p \<in> set ?P. \<not> skipped p}"
    by (simp only: simp_thms)
  then have p2: "\<exists>res1 w1. scan_states_programs quiet_env False ?P ?R' fresh_world
          = ((None, res1), w1)
        \<and> res_total_found res1 = 1 \<and> known_ids (db w1) = {''5''}"
    by (simp only: n1 ids t0 add_0)
  show ?thesis
    by (intro conjI e1 e2 p1 p2)
qed

end
